theory Spec2Isabelle
  imports Complex_Main "HOL-Library.Word" "HOL-Library.Log_Nat"
begin

section \<open>The DMA test driver \<open>RTL/examples/dma/sw/main.cpp\<close>\<close>

text \<open>
  The program is one function, \<open>main\<close>, driving an FPGA accelerator through the AFU
  wrapper class. The wrapper (\<open>AFU.h\<close>), the configuration (\<open>config.h\<close>) and OPAE are not
  part of the source file: their constants are fields of the record \<open>config\<close>, and the
  behaviour of the wrapper, of the shared buffers, of \<open>rand\<close> and of the clock are the
  fields of the record \<open>env\<close>, functions on a state of the outside world of any type \<open>'w\<close>.
  Every interaction of \<open>main\<close> with the outside is recorded as an event; a run of \<open>main\<close>
  yields its exit code and the list of its events, in order.
\<close>

subsection \<open>Data\<close>

type_synonym u64 = "64 word"
type_synonym unsigned = "32 word"

text \<open>OPAE's result codes; the program tells \<open>FPGA_BUSY\<close> and \<open>FPGA_NOT_FOUND\<close> from the rest.\<close>

datatype fpga_result =
    FPGA_OK | FPGA_INVALID_PARAM | FPGA_BUSY | FPGA_EXCEPTION | FPGA_NOT_FOUND
  | FPGA_NO_MEMORY | FPGA_NOT_SUPPORTED | FPGA_NO_DRIVER | FPGA_NO_DAEMON
  | FPGA_NO_ACCESS | FPGA_RECONF_ERROR

text \<open>
  The exception types that the handlers of \<open>main\<close> name (lines 123, 138, 141): a thrown
  \<open>fpga_result\<close>, a \<open>runtime_error\<close> with its \<open>what()\<close>, and OPAE's \<open>no_driver\<close>.
\<close>

datatype exn = Fpga_result fpga_result | Runtime_error string | No_driver

text \<open>
  The names that \<open>main\<close> takes from \<open>config.h\<close>, \<open>AFU.h\<close>, \<open>afu_json_info.h\<close> and OPAE.
  \<open>dma_data_t\<close> is the type variable \<open>'a\<close>; \<open>dma_data_of_int\<close> is the conversion
  \<open>(dma_data_t) x\<close> of an \<open>int\<close>. \<open>DATA_AMOUNT\<close> is taken in the range of \<open>unsigned\<close>, the
  type of the loop counters it bounds.
\<close>

record 'a config =
  AFU_ACCEL_UUID :: string
  DATA_AMOUNT :: unsigned
  sizeof_dma_data_t :: nat
  dma_data_of_int :: "int \<Rightarrow> 'a"
  CL_BYTES :: unsigned
  MMIO_RD_ADDR :: u64
  MMIO_WR_ADDR :: u64
  MMIO_SIZE :: u64
  MMIO_GO :: u64
  MMIO_DONE :: u64
  SLEEP_WHILE_WAITING :: bool
  SLEEP_MS :: int
  fpgaErrStr :: "fpga_result \<Rightarrow> string"

text \<open>
  The outside world. Each member function of the wrapper either throws or returns, and
  changes the world (the accelerator runs, and writes the output buffer, while the program
  talks to it). A buffer is known by the pointer \<open>AFU::malloc\<close> returned; \<open>load p i\<close> and
  \<open>store p i v\<close> are the volatile accesses \<open>p[i]\<close> and \<open>p[i] = v\<close>. The world changes
  only in the calls of the wrapper, in the stores, in \<open>rand\<close> and in the sleep: between
  two reads of the comparison it stands still.
\<close>

record ('w, 'a) env =
  AFU_new :: "string \<Rightarrow> 'w \<Rightarrow> exn + 'w"
  AFU_malloc :: "nat \<Rightarrow> 'w \<Rightarrow> exn + (u64 \<times> 'w)"
  AFU_write :: "u64 \<Rightarrow> u64 \<Rightarrow> 'w \<Rightarrow> exn + 'w"
  AFU_read :: "u64 \<Rightarrow> 'w \<Rightarrow> exn + (u64 \<times> 'w)"
  AFU_free :: "u64 \<Rightarrow> 'w \<Rightarrow> exn + 'w"
  load :: "u64 \<Rightarrow> nat \<Rightarrow> 'w \<Rightarrow> 'a"
  store :: "u64 \<Rightarrow> nat \<Rightarrow> 'a \<Rightarrow> 'w \<Rightarrow> 'w"
  rand :: "'w \<Rightarrow> int \<times> 'w"
  sleep_for :: "int \<Rightarrow> 'w \<Rightarrow> 'w"

text \<open>Events: a call of the wrapper with what it gave back, and the other effects.\<close>

datatype call = New string | Malloc nat | Write u64 u64 | Read u64 | Free u64

datatype ret = Void | Value u64 | Thrown exn

datatype 'a event =
    Afu call ret
  | Store u64 nat 'a
  | Load u64 nat 'a
  | Rand int
  | Sleep int
  | Cout string
  | Cerr string

text \<open>
  What a piece of the program yields: it completes with a value and a new world, or an
  exception leaves it, or its behaviour is undefined (the conversion of line 83 out of
  range). Each carries the events of the piece. A piece that never returns yields \<open>None\<close>.
\<close>

datatype ('r, 'w, 'a) res =
    Ok 'r 'w "'a event list"
  | Raise exn "'a event list"
  | Undef "'a event list"

fun trace_of :: "('r, 'w, 'a) res \<Rightarrow> 'a event list" where
  "trace_of (Ok r w tr) = tr"
| "trace_of (Raise e tr) = tr"
| "trace_of (Undef tr) = tr"

fun prepend :: "'a event list \<Rightarrow> ('r, 'w, 'a) res \<Rightarrow> ('r, 'w, 'a) res" where
  "prepend tr0 (Ok r w tr) = Ok r w (tr0 @ tr)"
| "prepend tr0 (Raise e tr) = Raise e (tr0 @ tr)"
| "prepend tr0 (Undef tr) = Undef (tr0 @ tr)"

text \<open>Sequencing of statements: the second runs only when the first completes.\<close>

definition bind_res ::
  "('r, 'w, 'a) res option \<Rightarrow> ('r \<Rightarrow> 'w \<Rightarrow> ('q, 'w, 'a) res option) \<Rightarrow> ('q, 'w, 'a) res option"
where
  "bind_res m f =
     (case m of
        None \<Rightarrow> None
      | Some (Raise e tr) \<Rightarrow> Some (Raise e tr)
      | Some (Undef tr) \<Rightarrow> Some (Undef tr)
      | Some (Ok r w tr) \<Rightarrow> (case f r w of None \<Rightarrow> None | Some x \<Rightarrow> Some (prepend tr x)))"

subsection \<open>The calls of the wrapper and the output streams\<close>

definition afu_new :: "('w, 'a) env \<Rightarrow> string \<Rightarrow> 'w \<Rightarrow> (unit, 'w, 'a) res option" where
  "afu_new A uuid w =
     (case AFU_new A uuid w of
        Inl e \<Rightarrow> Some (Raise e [Afu (New uuid) (Thrown e)])
      | Inr w' \<Rightarrow> Some (Ok () w' [Afu (New uuid) Void]))"

definition afu_malloc :: "('w, 'a) env \<Rightarrow> nat \<Rightarrow> 'w \<Rightarrow> (u64, 'w, 'a) res option" where
  "afu_malloc A n w =
     (case AFU_malloc A n w of
        Inl e \<Rightarrow> Some (Raise e [Afu (Malloc n) (Thrown e)])
      | Inr (p, w') \<Rightarrow> Some (Ok p w' [Afu (Malloc n) (Value p)]))"

definition afu_write :: "('w, 'a) env \<Rightarrow> u64 \<Rightarrow> u64 \<Rightarrow> 'w \<Rightarrow> (unit, 'w, 'a) res option" where
  "afu_write A off v w =
     (case AFU_write A off v w of
        Inl e \<Rightarrow> Some (Raise e [Afu (Write off v) (Thrown e)])
      | Inr w' \<Rightarrow> Some (Ok () w' [Afu (Write off v) Void]))"

definition afu_read :: "('w, 'a) env \<Rightarrow> u64 \<Rightarrow> 'w \<Rightarrow> (u64, 'w, 'a) res option" where
  "afu_read A off w =
     (case AFU_read A off w of
        Inl e \<Rightarrow> Some (Raise e [Afu (Read off) (Thrown e)])
      | Inr (v, w') \<Rightarrow> Some (Ok v w' [Afu (Read off) (Value v)]))"

definition afu_free :: "('w, 'a) env \<Rightarrow> u64 \<Rightarrow> 'w \<Rightarrow> (unit, 'w, 'a) res option" where
  "afu_free A p w =
     (case AFU_free A p w of
        Inl e \<Rightarrow> Some (Raise e [Afu (Free p) (Thrown e)])
      | Inr w' \<Rightarrow> Some (Ok () w' [Afu (Free p) Void]))"

definition cout :: "string \<Rightarrow> 'w \<Rightarrow> (unit, 'w, 'a) res option" where
  "cout s w = Some (Ok () w [Cout s])"

definition endl :: string where
  "endl = [CHR 0x0A]"

text \<open>
  \<open>cout << hex\<close> (line 65) stays in force for the rest of the run: every number printed
  to \<open>cout\<close> is in base 16, lower case, without prefix.
\<close>

definition hex_digit :: "nat \<Rightarrow> char" where
  "hex_digit d = ''0123456789abcdef'' ! d"

fun hex :: "nat \<Rightarrow> string" where
  "hex n = (if n < 16 then [hex_digit n] else hex (n div 16) @ [hex_digit (n mod 16)])"

declare hex.simps [simp del]

subsection \<open>Lines 82-83: the size in cache lines\<close>

text \<open>
  \<open>unsigned total_bytes = DATA_AMOUNT*sizeof(dma_data_t)\<close>: the product is cut to 32 bits.
\<close>

definition total_bytes :: "'a config \<Rightarrow> unsigned" where
  "total_bytes c = of_nat (unat (DATA_AMOUNT c) * sizeof_dma_data_t c)"

text \<open>
  Single precision: a positive number is rounded to 24 significant bits, to nearest, ties
  to even. The numbers that line 83 rounds lie between \<open>2^-32\<close> and \<open>2^32\<close>, far
  from overflow and from the subnormal range, so the exponent is not bounded here.
  \<open>ilog2 x\<close> is the exponent \<open>e\<close> with \<open>2^e \<le> x < 2^(e+1)\<close>.
\<close>

definition pow2 :: "int \<Rightarrow> rat" where
  "pow2 e = (if 0 \<le> e then 2 ^ nat e else 1 / 2 ^ nat (- e))"

definition ilog2 :: "rat \<Rightarrow> int" where
  "ilog2 x =
     (let (p, q) = quotient_of x; k = bitlen p - bitlen q
      in if pow2 k \<le> x then k else k - 1)"

definition round_half_even :: "rat \<Rightarrow> int" where
  "round_half_even q =
     (let f = \<lfloor>q\<rfloor>; r = q - of_int f
      in if r < 1 / 2 then f else if 1 / 2 < r then f + 1 else if even f then f else f + 1)"

definition f32_round :: "rat \<Rightarrow> rat" where
  "f32_round x =
     (if x \<le> 0 then 0
      else let ulp = pow2 (ilog2 x - 23) in of_int (round_half_even (x / ulp)) * ulp)"

text \<open>\<open>(float) u\<close> for an \<open>unsigned\<close>.\<close>

definition float_of_unsigned :: "unsigned \<Rightarrow> rat" where
  "float_of_unsigned u = f32_round (of_nat (unat u))"

text \<open>
  \<open>unsigned num_cls = ceil((float) total_bytes / (float) AFU::CL_BYTES)\<close>. The division
  by zero gives an infinity or a NaN, and the conversion to \<open>unsigned\<close> of a value outside
  its range is undefined: \<open>None\<close>.
\<close>

definition num_cls :: "'a config \<Rightarrow> unsigned option" where
  "num_cls c =
     (let a = float_of_unsigned (total_bytes c); b = float_of_unsigned (CL_BYTES c)
      in if b = 0 then None
         else let q = f32_round (a / b); n = \<lceil>q\<rceil>
              in if n < 2 ^ 32 then Some (word_of_int n) else None)"

subsection \<open>The test loop, lines 55-117\<close>

text \<open>Lines 62-68: the two buffers, and three lines on \<open>cout\<close>.\<close>

definition allocate ::
  "'a config \<Rightarrow> ('w, 'a) env \<Rightarrow> nat \<Rightarrow> 'w \<Rightarrow> (u64 \<times> u64, 'w, 'a) res option"
where
  "allocate c A test w =
     bind_res (afu_malloc A (unat (DATA_AMOUNT c)) w) (\<lambda>input w.
     bind_res (afu_malloc A (unat (DATA_AMOUNT c)) w) (\<lambda>output w.
     bind_res (cout (hex (unat input) @ endl) w) (\<lambda>_ w.
     bind_res (cout (hex (unat output) @ endl) w) (\<lambda>_ w.
     bind_res (cout (''Test '' @ hex test @ ''...'' @ endl) w) (\<lambda>_ w.
     Some (Ok (input, output) w []))))))"

text \<open>Lines 71-74, over the indices \<open>0, ..., DATA_AMOUNT - 1\<close>.\<close>

fun init_loop ::
  "'a config \<Rightarrow> ('w, 'a) env \<Rightarrow> u64 \<Rightarrow> u64 \<Rightarrow> nat list \<Rightarrow> 'w \<Rightarrow> 'w \<times> 'a event list"
where
  "init_loop c A input output [] w = (w, [])"
| "init_loop c A input output (i # is) w =
     (let (r, w1) = rand A w;
          w2 = store A input i (dma_data_of_int c r) w1;
          w3 = store A output i (dma_data_of_int c 0) w2;
          (w', tr) = init_loop c A input output is w3
      in (w', [Rand r, Store input i (dma_data_of_int c r), Store output i (dma_data_of_int c 0)] @ tr))"

definition initialize ::
  "'a config \<Rightarrow> ('w, 'a) env \<Rightarrow> u64 \<Rightarrow> u64 \<Rightarrow> 'w \<Rightarrow> (unit, 'w, 'a) res option"
where
  "initialize c A input output w =
     (let (w', tr) = init_loop c A input output [0 ..< unat (DATA_AMOUNT c)] w
      in Some (Ok () w' tr))"

text \<open>Lines 77-87: the four registers.\<close>

definition program ::
  "'a config \<Rightarrow> ('w, 'a) env \<Rightarrow> u64 \<Rightarrow> u64 \<Rightarrow> 'w \<Rightarrow> (unit, 'w, 'a) res option"
where
  "program c A input output w =
     bind_res (afu_write A (MMIO_RD_ADDR c) input w) (\<lambda>_ w.
     bind_res (afu_write A (MMIO_WR_ADDR c) output w) (\<lambda>_ w.
     (case num_cls c of
        None \<Rightarrow> Some (Undef [])
      | Some n \<Rightarrow>
          bind_res (afu_write A (MMIO_SIZE c) (ucast n) w) (\<lambda>_ w.
          afu_write A (MMIO_GO c) 1 w))))"

text \<open>
  Lines 90-93: the loop ends when the register is not 0, or when the read throws; \<open>acc\<close>
  holds the events of the loop so far.
\<close>

partial_function (option) poll ::
  "'a config \<Rightarrow> ('w, 'a) env \<Rightarrow> 'w \<Rightarrow> 'a event list \<Rightarrow> (unit, 'w, 'a) res option"
where
  "poll c A w acc =
     (case AFU_read A (MMIO_DONE c) w of
        Inl e \<Rightarrow> Some (Raise e (acc @ [Afu (Read (MMIO_DONE c)) (Thrown e)]))
      | Inr (v, w') \<Rightarrow>
          if v = 0 then
            (if SLEEP_WHILE_WAITING c
             then poll c A (sleep_for A (SLEEP_MS c) w')
                    (acc @ [Afu (Read (MMIO_DONE c)) (Value 0), Sleep (SLEEP_MS c)])
             else poll c A w' (acc @ [Afu (Read (MMIO_DONE c)) (Value 0)]))
          else Some (Ok () w' (acc @ [Afu (Read (MMIO_DONE c)) (Value v)])))"

declare poll.simps [code]

text \<open>
  Lines 98-103; \<open>errors\<close> is an \<open>unsigned\<close>. The left operand of \<open>!=\<close> is read first here
  (the language leaves the order of the two reads open).
\<close>

fun count_errors ::
  "('w, 'a) env \<Rightarrow> u64 \<Rightarrow> u64 \<Rightarrow> nat list \<Rightarrow> 'w \<Rightarrow> unsigned \<Rightarrow> unsigned \<times> 'a event list"
where
  "count_errors A input output [] w errors = (errors, [])"
| "count_errors A input output (i # is) w errors =
     (let vo = load A output i w;
          vi = load A input i w;
          (errors', tr) = count_errors A input output is w (if vo \<noteq> vi then errors + 1 else errors)
      in (errors', [Load output i vo, Load input i vi] @ tr))"

definition verify ::
  "'a config \<Rightarrow> ('w, 'a) env \<Rightarrow> u64 \<Rightarrow> u64 \<Rightarrow> 'w \<Rightarrow> (unsigned, 'w, 'a) res option"
where
  "verify c A input output w =
     (let (errors, tr) = count_errors A input output [0 ..< unat (DATA_AMOUNT c)] w 0
      in Some (Ok errors w tr))"

text \<open>
  Lines 105-113. The operands of \<open><<\<close> are evaluated from left to right (C++17): the
  text is inserted before the register is read.
\<close>

definition report ::
  "'a config \<Rightarrow> ('w, 'a) env \<Rightarrow> unsigned \<Rightarrow> 'w \<Rightarrow> (unit, 'w, 'a) res option"
where
  "report c A errors w =
     bind_res (cout ''# of resets: '' w) (\<lambda>_ w.
     bind_res (afu_read A 0x0060 w) (\<lambda>resets w.
     bind_res (cout (hex (unat resets) @ endl) w) (\<lambda>_ w.
     bind_res (if 0 < errors
               then cout (''FAILURE: DMA Test Failed With '' @ hex (unat errors) @ '' errors!!!!'' @ endl) w
               else Some (Ok () w [])) (\<lambda>_ w.
     cout (''DMA Test Successful!!!'' @ endl) w))))"

text \<open>Lines 115-116.\<close>

definition release ::
  "('w, 'a) env \<Rightarrow> u64 \<Rightarrow> u64 \<Rightarrow> 'w \<Rightarrow> (unit, 'w, 'a) res option"
where
  "release A input output w =
     bind_res (afu_free A input w) (\<lambda>_ w. afu_free A output w)"

text \<open>The body of the loop over \<open>test\<close>, lines 56-117.\<close>

definition test_body ::
  "'a config \<Rightarrow> ('w, 'a) env \<Rightarrow> nat \<Rightarrow> 'w \<Rightarrow> (unit, 'w, 'a) res option"
where
  "test_body c A test w =
     bind_res (allocate c A test w) (\<lambda>(input, output) w.
     bind_res (initialize c A input output w) (\<lambda>_ w.
     bind_res (program c A input output w) (\<lambda>_ w.
     bind_res (poll c A w []) (\<lambda>_ w.
     bind_res (verify c A input output w) (\<lambda>errors w.
     bind_res (report c A errors w) (\<lambda>_ w.
     release A input output w))))))"

definition NUM_TESTS :: nat where
  "NUM_TESTS = 1"

fun test_loop ::
  "'a config \<Rightarrow> ('w, 'a) env \<Rightarrow> nat list \<Rightarrow> 'w \<Rightarrow> (unit, 'w, 'a) res option"
where
  "test_loop c A [] w = Some (Ok () w [])"
| "test_loop c A (test # tests) w =
     bind_res (test_body c A test w) (\<lambda>_ w. test_loop c A tests w)"

subsection \<open>\<open>main\<close>, lines 45-146\<close>

definition EXIT_SUCCESS :: int where
  "EXIT_SUCCESS = 0"

definition EXIT_FAILURE :: int where
  "EXIT_FAILURE = 1"

text \<open>
  The \<open>try\<close> block, lines 47-120. The destructor of the \<open>AFU\<close> object, which runs
  when the block is left, is not part of the source file and is left out.
\<close>

definition try_block :: "'a config \<Rightarrow> ('w, 'a) env \<Rightarrow> 'w \<Rightarrow> (unit, 'w, 'a) res option" where
  "try_block c A w =
     bind_res (afu_new A (AFU_ACCEL_UUID c) w) (\<lambda>_ w.
     test_loop c A [0 ..< NUM_TESTS] w)"

text \<open>The handlers, lines 123-143: the line each writes to \<open>cerr\<close>.\<close>

fun handler :: "'a config \<Rightarrow> exn \<Rightarrow> string" where
  "handler c (Fpga_result e) =
     (if e = FPGA_BUSY then ''ERROR: All FPGAs busy.'' @ endl
      else if e = FPGA_NOT_FOUND
      then ''ERROR: FPGA with accelerator '' @ AFU_ACCEL_UUID c @ '' not found.'' @ endl
      else ''ERROR: '' @ fpgaErrStr c e @ endl)"
| "handler c (Runtime_error what) = what @ endl"
| "handler c No_driver = ''ERROR: No FPGA driver found.'' @ endl"

datatype outcome = Exit int | Undefined

definition main :: "'a config \<Rightarrow> ('w, 'a) env \<Rightarrow> 'w \<Rightarrow> (outcome \<times> 'a event list) option" where
  "main c A w =
     (case try_block c A w of
        None \<Rightarrow> None
      | Some (Ok _ _ tr) \<Rightarrow> Some (Exit EXIT_SUCCESS, tr)
      | Some (Raise e tr) \<Rightarrow> Some (Exit EXIT_FAILURE, tr @ [Cerr (handler c e)])
      | Some (Undef tr) \<Rightarrow> Some (Undefined, tr))"

subsection \<open>Describing runs\<close>

text \<open>The events of each phase of an iteration that completes, written out.\<close>

definition alloc_events :: "'a config \<Rightarrow> nat \<Rightarrow> u64 \<Rightarrow> u64 \<Rightarrow> 'a event list" where
  "alloc_events c test input output =
     [Afu (Malloc (unat (DATA_AMOUNT c))) (Value input),
      Afu (Malloc (unat (DATA_AMOUNT c))) (Value output),
      Cout (hex (unat input) @ endl),
      Cout (hex (unat output) @ endl),
      Cout (''Test '' @ hex test @ ''...'' @ endl)]"

definition init_step :: "'a config \<Rightarrow> u64 \<Rightarrow> u64 \<Rightarrow> nat \<times> int \<Rightarrow> 'a event list" where
  "init_step c input output ir =
     [Rand (snd ir), Store input (fst ir) (dma_data_of_int c (snd ir)),
      Store output (fst ir) (dma_data_of_int c 0)]"

definition init_events :: "'a config \<Rightarrow> u64 \<Rightarrow> u64 \<Rightarrow> nat list \<Rightarrow> int list \<Rightarrow> 'a event list" where
  "init_events c input output is rs = concat (map (init_step c input output) (zip is rs))"

definition program_events :: "'a config \<Rightarrow> u64 \<Rightarrow> u64 \<Rightarrow> unsigned \<Rightarrow> 'a event list" where
  "program_events c input output n =
     [Afu (Write (MMIO_RD_ADDR c) input) Void,
      Afu (Write (MMIO_WR_ADDR c) output) Void,
      Afu (Write (MMIO_SIZE c) (ucast n)) Void,
      Afu (Write (MMIO_GO c) 1) Void]"

definition wait_events :: "'a config \<Rightarrow> 'a event list" where
  "wait_events c =
     Afu (Read (MMIO_DONE c)) (Value 0) # (if SLEEP_WHILE_WAITING c then [Sleep (SLEEP_MS c)] else [])"

definition poll_events :: "'a config \<Rightarrow> nat \<Rightarrow> u64 \<Rightarrow> 'a event list" where
  "poll_events c k v = concat (replicate k (wait_events c)) @ [Afu (Read (MMIO_DONE c)) (Value v)]"

definition compare_events :: "('w, 'a) env \<Rightarrow> u64 \<Rightarrow> u64 \<Rightarrow> nat list \<Rightarrow> 'w \<Rightarrow> 'a event list" where
  "compare_events A input output is w =
     concat (map (\<lambda>i. [Load output i (load A output i w), Load input i (load A input i w)]) is)"

text \<open>The number of places where the two buffers differ, in the world \<open>w\<close>.\<close>

definition mismatches :: "('w, 'a) env \<Rightarrow> u64 \<Rightarrow> u64 \<Rightarrow> nat \<Rightarrow> 'w \<Rightarrow> nat" where
  "mismatches A input output n w = card {i. i < n \<and> load A output i w \<noteq> load A input i w}"

definition failure_line :: "unsigned \<Rightarrow> string" where
  "failure_line errors = ''FAILURE: DMA Test Failed With '' @ hex (unat errors) @ '' errors!!!!'' @ endl"

definition success_line :: string where
  "success_line = ''DMA Test Successful!!!'' @ endl"

definition report_events :: "u64 \<Rightarrow> unsigned \<Rightarrow> 'a event list" where
  "report_events resets errors =
     [Cout ''# of resets: '', Afu (Read 0x0060) (Value resets), Cout (hex (unat resets) @ endl)]
     @ (if 0 < errors then [Cout (failure_line errors)] else [])
     @ [Cout success_line]"

definition release_events :: "u64 \<Rightarrow> u64 \<Rightarrow> 'a event list" where
  "release_events input output = [Afu (Free input) Void, Afu (Free output) Void]"

text \<open>Kinds of events.\<close>

fun is_thrown :: "'a event \<Rightarrow> bool" where
  "is_thrown (Afu cl (Thrown e)) = True"
| "is_thrown _ = False"

fun is_load :: "'a event \<Rightarrow> bool" where
  "is_load (Load p i v) = True"
| "is_load _ = False"

fun is_write :: "'a event \<Rightarrow> bool" where
  "is_write (Afu (Write off v) r) = True"
| "is_write _ = False"

fun is_mmio :: "'a event \<Rightarrow> bool" where
  "is_mmio (Afu (Write off v) r) = True"
| "is_mmio (Afu (Read off) r) = True"
| "is_mmio _ = False"

fun is_buffer_call :: "'a event \<Rightarrow> bool" where
  "is_buffer_call (Afu (Malloc n) r) = True"
| "is_buffer_call (Afu (Free p) r) = True"
| "is_buffer_call _ = False"

text \<open>The register offsets that a run reads or writes.\<close>

fun mmio_of :: "'a event \<Rightarrow> u64 list" where
  "mmio_of (Afu (Write off v) r) = [off]"
| "mmio_of (Afu (Read off) r) = [off]"
| "mmio_of _ = []"

definition mmio_offsets :: "'a event list \<Rightarrow> u64 set" where
  "mmio_offsets tr = set (concat (map mmio_of tr))"

text \<open>
  An exception ends a piece of the program at the call that threw it: no event of the
  piece is a throwing call, except the last one of a piece that the exception leaves.
\<close>

fun orderly :: "('r, 'w, 'a) res \<Rightarrow> bool" where
  "orderly (Ok r w tr) = (\<forall>x \<in> set tr. \<not> is_thrown x)"
| "orderly (Undef tr) = (\<forall>x \<in> set tr. \<not> is_thrown x)"
| "orderly (Raise e tr) =
     (\<exists>tr0 cl. tr = tr0 @ [Afu cl (Thrown e)] \<and> (\<forall>x \<in> set tr0. \<not> is_thrown x))"

text \<open>Every event of a piece satisfies \<open>P\<close>; every result of a piece is orderly.\<close>

definition every :: "('a event \<Rightarrow> bool) \<Rightarrow> ('r, 'w, 'a) res option \<Rightarrow> bool" where
  "every P m = (\<forall>res. m = Some res \<longrightarrow> (\<forall>x \<in> set (trace_of res). P x))"

definition orderly_run :: "('r, 'w, 'a) res option \<Rightarrow> bool" where
  "orderly_run m = (\<forall>res. m = Some res \<longrightarrow> orderly res)"

text \<open>The accelerator answers a poll with a value that is not 0, or throws, within \<open>k\<close> polls.\<close>

fun done_within :: "'a config \<Rightarrow> ('w, 'a) env \<Rightarrow> nat \<Rightarrow> 'w \<Rightarrow> bool" where
  "done_within c A 0 w = False"
| "done_within c A (Suc k) w =
     (case AFU_read A (MMIO_DONE c) w of
        Inl e \<Rightarrow> True
      | Inr (v, w') \<Rightarrow>
          v \<noteq> 0 \<or> done_within c A k (if SLEEP_WHILE_WAITING c then sleep_for A (SLEEP_MS c) w' else w'))"

subsection \<open>The buffers after the initialisation\<close>

text \<open>
  What lines 71-74 are to do, said without the loop: \<open>init_cell i\<close> is the world after
  \<open>input[i] = (dma_data_t) rand(); output[i] = 0\<close>, \<open>init_world\<close> the world after this was
  done for each index of a list in turn, and \<open>init_rands\<close> the values that \<open>rand\<close> returned
  on the way.
\<close>

definition init_cell :: "'a config \<Rightarrow> ('w, 'a) env \<Rightarrow> u64 \<Rightarrow> u64 \<Rightarrow> 'w \<Rightarrow> nat \<Rightarrow> 'w" where
  "init_cell c A input output w i =
     store A output i (dma_data_of_int c 0)
       (store A input i (dma_data_of_int c (fst (rand A w))) (snd (rand A w)))"

definition init_world :: "'a config \<Rightarrow> ('w, 'a) env \<Rightarrow> u64 \<Rightarrow> u64 \<Rightarrow> nat list \<Rightarrow> 'w \<Rightarrow> 'w" where
  "init_world c A input output is w = foldl (init_cell c A input output) w is"

definition init_rands :: "'a config \<Rightarrow> ('w, 'a) env \<Rightarrow> u64 \<Rightarrow> u64 \<Rightarrow> nat list \<Rightarrow> 'w \<Rightarrow> int list" where
  "init_rands c A input output is w =
     map (\<lambda>k. fst (rand A (init_world c A input output (take k is) w))) [0 ..< length is]"

text \<open>
  The buffers behave as memory: a cell holds what was stored into it last, a store into one
  cell leaves the others alone (a cell is a buffer and an index: two buffers do not
  overlap), and \<open>rand\<close> touches no cell.
\<close>

definition acts_as_memory :: "('w, 'a) env \<Rightarrow> bool" where
  "acts_as_memory A \<longleftrightarrow>
     (\<forall>p i v w. load A p i (store A p i v w) = v) \<and>
     (\<forall>p i q j v w. (q, j) \<noteq> (p, i) \<longrightarrow> load A p i (store A q j v w) = load A p i w) \<and>
     (\<forall>p i w. load A p i (snd (rand A w)) = load A p i w)"

subsection \<open>The size in cache lines, exactly\<close>

text \<open>
  The ceiling of \<open>DATA_AMOUNT * sizeof(dma_data_t) / CL_BYTES\<close> over the rationals, and the
  condition that none of the three roundings of line 83 changes its argument.
\<close>

definition exact_cls :: "'a config \<Rightarrow> int" where
  "exact_cls c =
     \<lceil>(of_nat (unat (DATA_AMOUNT c) * sizeof_dma_data_t c) :: rat) / of_nat (unat (CL_BYTES c))\<rceil>"

definition no_rounding :: "'a config \<Rightarrow> bool" where
  "no_rounding c =
     (float_of_unsigned (total_bytes c) = of_nat (unat (total_bytes c)) \<and>
      float_of_unsigned (CL_BYTES c) = of_nat (unat (CL_BYTES c)) \<and>
      f32_round (of_nat (unat (total_bytes c)) / of_nat (unat (CL_BYTES c)))
        = of_nat (unat (total_bytes c)) / of_nat (unat (CL_BYTES c)))"

subsection \<open>A configuration and a simulated accelerator\<close>

text \<open>
  Concrete inputs for the runs evaluated below: \<open>dma_data_t\<close> is a 64-bit unsigned integer,
  two elements are transferred. In \<open>big_config\<close> the buffers have \<open>2^32\<close> bytes, and in
  \<open>rounding_config\<close> \<open>2^24 + 1\<close> bytes. The simulated world holds the shared memory
  (every cell holds \<open>0xdeadbeef\<close> at the start), the registers, the next address that
  \<open>AFU::malloc\<close> gives out, the buffers allocated and not yet freed, the number of polls
  that the accelerator still answers with 0, and the state of \<open>rand\<close>. When \<open>copies\<close> is
  set the accelerator copies the buffer on the go command, and otherwise leaves the output
  buffer as it is; \<open>fault\<close> says which calls of the wrapper throw.
\<close>

definition test_config :: "u64 config" where
  "test_config =
     \<lparr> AFU_ACCEL_UUID = ''5dc2fa52-d3b0-4f1a-a1f4-1c4eb0a2a3b7'', DATA_AMOUNT = 2,
       sizeof_dma_data_t = 8, dma_data_of_int = word_of_int, CL_BYTES = 64,
       MMIO_RD_ADDR = 0x0052, MMIO_WR_ADDR = 0x0054, MMIO_SIZE = 0x0056,
       MMIO_GO = 0x0050, MMIO_DONE = 0x0058,
       SLEEP_WHILE_WAITING = True, SLEEP_MS = 10, fpgaErrStr = (\<lambda>_. ''exception'') \<rparr>"

definition big_config :: "u64 config" where
  "big_config = test_config \<lparr> DATA_AMOUNT := 536870912 \<rparr>"

definition rounding_config :: "u64 config" where
  "rounding_config = test_config \<lparr> DATA_AMOUNT := 16777217, sizeof_dma_data_t := 1, CL_BYTES := 1 \<rparr>"

record sim =
  mem :: "u64 \<times> nat \<Rightarrow> u64"
  regs :: "u64 \<Rightarrow> u64"
  brk :: u64
  live :: "u64 list"
  busy :: nat
  seed :: int

definition sim_afu :: "u64 config \<Rightarrow> bool \<Rightarrow> (call \<Rightarrow> exn option) \<Rightarrow> (sim, u64) env" where
  "sim_afu c copies fault =
     \<lparr> AFU_new = (\<lambda>uuid w. case fault (New uuid) of Some e \<Rightarrow> Inl e | None \<Rightarrow> Inr w),
       AFU_malloc = (\<lambda>n w. case fault (Malloc n) of Some e \<Rightarrow> Inl e
          | None \<Rightarrow> Inr (brk w, w\<lparr>brk := brk w + 0x1000, live := live w @ [brk w]\<rparr>)),
       AFU_write = (\<lambda>off v w. case fault (Write off v) of Some e \<Rightarrow> Inl e
          | None \<Rightarrow> Inr (if off = MMIO_GO c \<and> copies
              then w\<lparr>mem := (\<lambda>(p, i). if p = regs w (MMIO_WR_ADDR c)
                                       then mem w (regs w (MMIO_RD_ADDR c), i) else mem w (p, i))\<rparr>
              else w\<lparr>regs := (regs w)(off := v)\<rparr>)),
       AFU_read = (\<lambda>off w. case fault (Read off) of Some e \<Rightarrow> Inl e
          | None \<Rightarrow> if off = MMIO_DONE c
              then (if busy w = 0 then Inr (1, w) else Inr (0, w\<lparr>busy := busy w - 1\<rparr>))
              else Inr (0, w)),
       AFU_free = (\<lambda>p w. case fault (Free p) of Some e \<Rightarrow> Inl e
          | None \<Rightarrow> Inr (w\<lparr>live := removeAll p (live w)\<rparr>)),
       load = (\<lambda>p i w. mem w (p, i)),
       store = (\<lambda>p i v w. w\<lparr>mem := (mem w)((p, i) := v)\<rparr>),
       rand = (\<lambda>w. (seed w, w\<lparr>seed := (seed w * 1103515245 + 12345) mod 2147483648\<rparr>)),
       sleep_for = (\<lambda>ms w. w) \<rparr>"

definition sim_start :: sim where
  "sim_start =
     \<lparr> mem = (\<lambda>_. 0xdeadbeef), regs = (\<lambda>_. 0), brk = 0x7f0000, live = [], busy = 1, seed = 1 \<rparr>"

definition no_fault :: "call \<Rightarrow> exn option" where
  "no_fault cl = None"

definition fault_on :: "call \<Rightarrow> exn \<Rightarrow> call \<Rightarrow> exn option" where
  "fault_on cl e x = (if x = cl then Some e else None)"

text \<open>The events of the iteration with the accelerator that copies, and with the one that does not.\<close>

definition good_events :: "u64 event list" where
  "good_events =
     [Afu (Malloc 2) (Value 0x7f0000), Afu (Malloc 2) (Value 0x7f1000),
      Cout (''7f0000'' @ endl), Cout (''7f1000'' @ endl), Cout (''Test 0...'' @ endl),
      Rand 1, Store 0x7f0000 0 1, Store 0x7f1000 0 0,
      Rand 1103527590, Store 0x7f0000 1 1103527590, Store 0x7f1000 1 0,
      Afu (Write 0x52 0x7f0000) Void, Afu (Write 0x54 0x7f1000) Void,
      Afu (Write 0x56 1) Void, Afu (Write 0x50 1) Void,
      Afu (Read 0x58) (Value 0), Sleep 10, Afu (Read 0x58) (Value 1),
      Load 0x7f1000 0 1, Load 0x7f0000 0 1,
      Load 0x7f1000 1 1103527590, Load 0x7f0000 1 1103527590,
      Cout ''# of resets: '', Afu (Read 0x60) (Value 0), Cout (''0'' @ endl),
      Cout (''DMA Test Successful!!!'' @ endl),
      Afu (Free 0x7f0000) Void, Afu (Free 0x7f1000) Void]"

definition mismatch_events :: "u64 event list" where
  "mismatch_events =
     [Afu (Malloc 2) (Value 0x7f0000), Afu (Malloc 2) (Value 0x7f1000),
      Cout (''7f0000'' @ endl), Cout (''7f1000'' @ endl), Cout (''Test 0...'' @ endl),
      Rand 1, Store 0x7f0000 0 1, Store 0x7f1000 0 0,
      Rand 1103527590, Store 0x7f0000 1 1103527590, Store 0x7f1000 1 0,
      Afu (Write 0x52 0x7f0000) Void, Afu (Write 0x54 0x7f1000) Void,
      Afu (Write 0x56 1) Void, Afu (Write 0x50 1) Void,
      Afu (Read 0x58) (Value 0), Sleep 10, Afu (Read 0x58) (Value 1),
      Load 0x7f1000 0 0, Load 0x7f0000 0 1,
      Load 0x7f1000 1 0, Load 0x7f0000 1 1103527590,
      Cout ''# of resets: '', Afu (Read 0x60) (Value 0), Cout (''0'' @ endl),
      Cout (''FAILURE: DMA Test Failed With 2 errors!!!!'' @ endl),
      Cout (''DMA Test Successful!!!'' @ endl),
      Afu (Free 0x7f0000) Void, Afu (Free 0x7f1000) Void]"

section \<open>Properties of the pieces\<close>

subsection \<open>Sequencing\<close>

lemma bind_res_simps [simp]:
  "bind_res None f = None"
  "bind_res (Some (Raise e tr)) f = Some (Raise e tr)"
  "bind_res (Some (Undef tr)) f = Some (Undef tr)"
  "bind_res (Some (Ok r w tr)) f = map_option (prepend tr) (f r w)"
  by (simp_all add: bind_res_def split: option.splits)

lemma prepend_Ok_iff: "prepend tr0 x = Ok q w tr \<longleftrightarrow> (\<exists>tr1. x = Ok q w tr1 \<and> tr = tr0 @ tr1)"
  by (cases x) auto

lemma prepend_Raise_iff: "prepend tr0 x = Raise e tr \<longleftrightarrow> (\<exists>tr1. x = Raise e tr1 \<and> tr = tr0 @ tr1)"
  by (cases x) auto

lemma prepend_Undef_iff: "prepend tr0 x = Undef tr \<longleftrightarrow> (\<exists>tr1. x = Undef tr1 \<and> tr = tr0 @ tr1)"
  by (cases x) auto

lemma trace_of_prepend [simp]: "trace_of (prepend tr0 x) = tr0 @ trace_of x"
  by (cases x) simp_all

lemma bind_res_Ok_iff:
  "bind_res m f = Some (Ok q w' tr) \<longleftrightarrow>
     (\<exists>r w1 tr1 tr2. m = Some (Ok r w1 tr1) \<and> f r w1 = Some (Ok q w' tr2) \<and> tr = tr1 @ tr2)"
proof (cases m)
  case None
  then show ?thesis by simp
next
  case (Some x)
  then show ?thesis by (cases x) (auto simp: prepend_Ok_iff)
qed

lemma bind_res_OkE:
  assumes "bind_res m f = Some (Ok q w' tr)"
  obtains r w1 tr1 tr2 where "m = Some (Ok r w1 tr1)" "f r w1 = Some (Ok q w' tr2)" "tr = tr1 @ tr2"
  using assms unfolding bind_res_Ok_iff by blast

lemma bind_res_cases:
  assumes "bind_res m f = Some res"
  obtains (raise) e tr where "m = Some (Raise e tr)" "res = Raise e tr"
    | (undef) tr where "m = Some (Undef tr)" "res = Undef tr"
    | (ok) r w1 tr1 res2 where "m = Some (Ok r w1 tr1)" "f r w1 = Some res2" "res = prepend tr1 res2"
proof (cases m)
  case None
  with assms show ?thesis by simp
next
  case (Some x)
  with assms that show ?thesis by (cases x) auto
qed

lemma bind_res_None_iff:
  "bind_res m f = None \<longleftrightarrow> m = None \<or> (\<exists>r w1 tr1. m = Some (Ok r w1 tr1) \<and> f r w1 = None)"
proof (cases m)
  case None
  then show ?thesis by simp
next
  case (Some x)
  then show ?thesis by (cases x) auto
qed

text \<open>A property of every event of both parts holds of every event of the sequence.\<close>

lemma bind_res_all:
  assumes "bind_res m f = Some res"
    and "\<And>res1. m = Some res1 \<Longrightarrow> \<forall>x \<in> set (trace_of res1). P x"
    and "\<And>r w1 tr1 res2. m = Some (Ok r w1 tr1) \<Longrightarrow> f r w1 = Some res2 \<Longrightarrow> \<forall>x \<in> set (trace_of res2). P x"
  shows "\<forall>x \<in> set (trace_of res). P x"
  using assms(1)
proof (cases rule: bind_res_cases)
  case (raise e tr)
  with assms(2) show ?thesis by fastforce
next
  case (undef tr)
  with assms(2) show ?thesis by fastforce
next
  case (ok r w1 tr1 res2)
  with assms(2)[of "Ok r w1 tr1"] assms(3)[of r w1 tr1 res2] show ?thesis by auto
qed

lemma orderly_prepend:
  "\<forall>x \<in> set tr0. \<not> is_thrown x \<Longrightarrow> orderly x \<Longrightarrow> orderly (prepend tr0 x)"
proof (cases x)
  case (Raise e tr)
  assume a: "\<forall>x \<in> set tr0. \<not> is_thrown x" and "orderly x"
  with Raise obtain t cl where t: "tr = t @ [Afu cl (Thrown e)]" "\<forall>x \<in> set t. \<not> is_thrown x"
    by auto
  have "tr0 @ tr = (tr0 @ t) @ [Afu cl (Thrown e)] \<and> (\<forall>x \<in> set (tr0 @ t). \<not> is_thrown x)"
    using t a by auto
  then show ?thesis using Raise by (simp del: append_assoc)
qed auto

lemma bind_res_orderly:
  assumes "bind_res m f = Some res"
    and "\<And>res1. m = Some res1 \<Longrightarrow> orderly res1"
    and "\<And>r w1 tr1 res2. m = Some (Ok r w1 tr1) \<Longrightarrow> f r w1 = Some res2 \<Longrightarrow> orderly res2"
  shows "orderly res"
  using assms(1)
proof (cases rule: bind_res_cases)
  case (raise e tr)
  with assms(2)[of "Raise e tr"] show ?thesis by simp
next
  case (undef tr)
  with assms(2)[of "Undef tr"] show ?thesis by simp
next
  case (ok r w1 tr1 res2)
  with assms(2)[of "Ok r w1 tr1"] assms(3)[of r w1 tr1 res2] show ?thesis
    by (simp add: orderly_prepend)
qed

subsection \<open>The calls\<close>

lemma afu_new_cases:
  assumes "afu_new A uuid w = Some res"
  obtains (raise) e where "AFU_new A uuid w = Inl e" "res = Raise e [Afu (New uuid) (Thrown e)]"
    | (ok) w' where "AFU_new A uuid w = Inr w'" "res = Ok () w' [Afu (New uuid) Void]"
  using assms by (auto simp: afu_new_def split: sum.splits)

lemma afu_malloc_cases:
  assumes "afu_malloc A n w = Some res"
  obtains (raise) e where "AFU_malloc A n w = Inl e" "res = Raise e [Afu (Malloc n) (Thrown e)]"
    | (ok) p w' where "AFU_malloc A n w = Inr (p, w')" "res = Ok p w' [Afu (Malloc n) (Value p)]"
  using assms by (auto simp: afu_malloc_def split: sum.splits)

lemma afu_write_cases:
  assumes "afu_write A off v w = Some res"
  obtains (raise) e where "AFU_write A off v w = Inl e" "res = Raise e [Afu (Write off v) (Thrown e)]"
    | (ok) w' where "AFU_write A off v w = Inr w'" "res = Ok () w' [Afu (Write off v) Void]"
  using assms by (auto simp: afu_write_def split: sum.splits)

lemma afu_read_cases:
  assumes "afu_read A off w = Some res"
  obtains (raise) e where "AFU_read A off w = Inl e" "res = Raise e [Afu (Read off) (Thrown e)]"
    | (ok) v w' where "AFU_read A off w = Inr (v, w')" "res = Ok v w' [Afu (Read off) (Value v)]"
  using assms by (auto simp: afu_read_def split: sum.splits)

lemma afu_free_cases:
  assumes "afu_free A p w = Some res"
  obtains (raise) e where "AFU_free A p w = Inl e" "res = Raise e [Afu (Free p) (Thrown e)]"
    | (ok) w' where "AFU_free A p w = Inr w'" "res = Ok () w' [Afu (Free p) Void]"
  using assms by (auto simp: afu_free_def split: sum.splits)

lemma everyD: "every P m \<Longrightarrow> m = Some res \<Longrightarrow> x \<in> set (trace_of res) \<Longrightarrow> P x"
  by (simp add: every_def)

lemma every_mono: "every P m \<Longrightarrow> (\<And>x. P x \<Longrightarrow> Q x) \<Longrightarrow> every Q m"
  by (auto simp: every_def)

lemma every_bind:
  assumes "every P m" and "\<And>r w. every P (f r w)"
  shows "every P (bind_res m f)"
  unfolding every_def
proof (intro allI impI)
  fix res assume "bind_res m f = Some res"
  then show "\<forall>x \<in> set (trace_of res). P x"
  proof (rule bind_res_all)
    fix res1 assume "m = Some res1"
    with assms(1) show "\<forall>x \<in> set (trace_of res1). P x" by (simp add: every_def)
  next
    fix r w1 tr1 res2 assume "f r w1 = Some res2"
    with assms(2)[of r w1] show "\<forall>x \<in> set (trace_of res2). P x" by (simp add: every_def)
  qed
qed

lemma every_Ok: "(\<And>x. x \<in> set tr \<Longrightarrow> P x) \<Longrightarrow> every P (Some (Ok r w tr))"
  by (simp add: every_def)

lemma every_Undef: "(\<And>x. x \<in> set tr \<Longrightarrow> P x) \<Longrightarrow> every P (Some (Undef tr))"
  by (simp add: every_def)

lemma every_afu_new: "(\<And>r. P (Afu (New uuid) r)) \<Longrightarrow> every P (afu_new A uuid w)"
  by (auto simp: every_def elim!: afu_new_cases)

lemma every_afu_malloc: "(\<And>r. P (Afu (Malloc n) r)) \<Longrightarrow> every P (afu_malloc A n w)"
  by (auto simp: every_def elim!: afu_malloc_cases)

lemma every_afu_write: "(\<And>r. P (Afu (Write off v) r)) \<Longrightarrow> every P (afu_write A off v w)"
  by (auto simp: every_def elim!: afu_write_cases)

lemma every_afu_read: "(\<And>r. P (Afu (Read off) r)) \<Longrightarrow> every P (afu_read A off w)"
  by (auto simp: every_def elim!: afu_read_cases)

lemma every_afu_free: "(\<And>r. P (Afu (Free p) r)) \<Longrightarrow> every P (afu_free A p w)"
  by (auto simp: every_def elim!: afu_free_cases)

lemma every_cout: "P (Cout s) \<Longrightarrow> every P (cout s w)"
  by (simp add: every_def cout_def)

lemma orderly_runD: "orderly_run m \<Longrightarrow> m = Some res \<Longrightarrow> orderly res"
  by (simp add: orderly_run_def)

lemma orderly_bind:
  assumes "orderly_run m" and "\<And>r w. orderly_run (f r w)"
  shows "orderly_run (bind_res m f)"
  unfolding orderly_run_def
proof (intro allI impI)
  fix res assume "bind_res m f = Some res"
  then show "orderly res"
  proof (rule bind_res_orderly)
    fix res1 assume "m = Some res1"
    with assms(1) show "orderly res1" by (simp add: orderly_run_def)
  next
    fix r w1 tr1 res2 assume "f r w1 = Some res2"
    with assms(2)[of r w1] show "orderly res2" by (simp add: orderly_run_def)
  qed
qed

lemma orderly_Ok_Nil [simp]: "orderly_run (Some (Ok r w []))" "orderly_run (Some (Undef []))"
  by (simp_all add: orderly_run_def)

lemma orderly_afu [simp]:
  "orderly_run (afu_new A uuid w)" "orderly_run (afu_malloc A n w)"
  "orderly_run (afu_write A off v w)" "orderly_run (afu_read A off w)"
  "orderly_run (afu_free A p w)" "orderly_run (cout s w)"
  unfolding orderly_run_def
  by (auto elim!: afu_new_cases afu_malloc_cases afu_write_cases afu_read_cases afu_free_cases
      simp: cout_def)

subsection \<open>The phases of an iteration\<close>

lemma allocate_cases:
  assumes "allocate c A test w = Some res"
  obtains (raise1) e where "res = Raise e [Afu (Malloc (unat (DATA_AMOUNT c))) (Thrown e)]"
    | (raise2) e pin where
        "res = Raise e [Afu (Malloc (unat (DATA_AMOUNT c))) (Value pin),
                        Afu (Malloc (unat (DATA_AMOUNT c))) (Thrown e)]"
    | (ok) pin pout w' where "res = Ok (pin, pout) w' (alloc_events c test pin pout)"
  using assms unfolding allocate_def
proof (cases rule: bind_res_cases)
  case (raise e tr)
  then show ?thesis using that(1) by (auto elim!: afu_malloc_cases)
next
  case (undef tr)
  then show ?thesis by (auto elim!: afu_malloc_cases)
next
  case (ok pin w1 tr1 res2)
  from ok(1) have tr1: "tr1 = [Afu (Malloc (unat (DATA_AMOUNT c))) (Value pin)]"
    by (auto elim!: afu_malloc_cases)
  from ok(2) show ?thesis
  proof (cases rule: bind_res_cases)
    case (raise e tr)
    then show ?thesis using that(2) ok(3) tr1 by (auto elim!: afu_malloc_cases)
  next
    case (undef tr)
    then show ?thesis by (auto elim!: afu_malloc_cases)
  next
    case inner: (ok pout w2 tr2 res3)
    from inner(1) have tr2: "tr2 = [Afu (Malloc (unat (DATA_AMOUNT c))) (Value pout)]"
      by (auto elim!: afu_malloc_cases)
    from inner(2) have "res3 = Ok (pin, pout) w2
        [Cout (hex (unat pin) @ endl), Cout (hex (unat pout) @ endl),
         Cout (''Test '' @ hex test @ ''...'' @ endl)]"
      by (auto simp: cout_def)
    with ok(3) inner(3) tr1 tr2 that(3) show ?thesis
      by (simp add: alloc_events_def)
  qed
qed

lemma allocate_returns: "allocate c A test w \<noteq> None"
  by (auto simp: allocate_def bind_res_None_iff afu_malloc_def cout_def split: sum.splits)

lemma init_loop_events:
  "\<exists>rs. length rs = length is \<and> snd (init_loop c A input output is w) = init_events c input output is rs"
proof (induction "is" arbitrary: w)
  case Nil
  show ?case by (simp add: init_events_def)
next
  case (Cons i "is")
  obtain r w1 where r: "rand A w = (r, w1)" by (cases "rand A w")
  let ?w3 = "store A output i (dma_data_of_int c 0) (store A input i (dma_data_of_int c r) w1)"
  obtain w' tr where l: "init_loop c A input output is ?w3 = (w', tr)"
    by (cases "init_loop c A input output is ?w3")
  from Cons[of ?w3] l obtain rs where rs: "length rs = length is"
    "tr = init_events c input output is rs" by auto
  have "snd (init_loop c A input output (i # is) w) = init_events c input output (i # is) (r # rs)"
    using r l rs(2) by (simp add: init_events_def init_step_def)
  with rs(1) show ?case by (intro exI[of _ "r # rs"]) simp
qed

lemma initialize_eq:
  "\<exists>w' rs. length rs = unat (DATA_AMOUNT c) \<and>
     initialize c A input output w =
       Some (Ok () w' (init_events c input output [0 ..< unat (DATA_AMOUNT c)] rs))"
proof -
  let ?is = "[0 ..< unat (DATA_AMOUNT c)]"
  obtain w' tr where l: "init_loop c A input output ?is w = (w', tr)"
    by (cases "init_loop c A input output ?is w")
  from init_loop_events[of ?is c A "input" "output" w] l
  obtain rs where "length rs = length ?is" "tr = init_events c input output ?is rs"
    by auto
  with l show ?thesis
    by (auto simp: initialize_def)
qed

lemma initialize_cases:
  assumes "initialize c A input output w = Some res"
  obtains w' rs where "length rs = unat (DATA_AMOUNT c)"
    "res = Ok () w' (init_events c input output [0 ..< unat (DATA_AMOUNT c)] rs)"
  using assms initialize_eq[of c A "input" "output" w] by auto

lemma program_Ok:
  assumes "program c A input output w = Some (Ok u w' tr)"
  obtains n where "num_cls c = Some n" "tr = program_events c input output n"
proof (cases "num_cls c")
  case None
  with assms show ?thesis
    by (auto simp: program_def bind_res_Ok_iff)
next
  case (Some n)
  with assms have "tr = program_events c input output n"
    by (auto simp: program_def bind_res_Ok_iff program_events_def elim!: afu_write_cases)
  with Some that show ?thesis by blast
qed

lemma program_kind:
  "every (\<lambda>x. \<exists>off v r. x = Afu (Write off v) r \<and>
           off \<in> {MMIO_RD_ADDR c, MMIO_WR_ADDR c, MMIO_SIZE c, MMIO_GO c})
     (program c A input output w)"
  unfolding program_def
  by (cases "num_cls c") (auto intro!: every_bind every_afu_write every_Undef)

lemma program_orderly: "orderly_run (program c A input output w)"
  unfolding program_def
  by (cases "num_cls c") (auto intro!: orderly_bind)

lemma program_returns: "program c A input output w \<noteq> None"
  by (auto simp: program_def bind_res_None_iff afu_write_def split: sum.splits option.splits)

subsection \<open>The polling loop\<close>

lemma poll_events_Suc: "wait_events c @ poll_events c k v = poll_events c (Suc k) v"
  by (simp add: poll_events_def)

lemma poll_cases_aux:
  assumes "poll c A w acc = Some res"
  shows "\<exists>k. (\<exists>v w'. v \<noteq> 0 \<and> res = Ok () w' (acc @ poll_events c k v)) \<or>
             (\<exists>e. res = Raise e (acc @ concat (replicate k (wait_events c))
                                   @ [Afu (Read (MMIO_DONE c)) (Thrown e)]))"
proof (rule poll.raw_induct[where P = "\<lambda>c A w acc res. \<exists>k. (\<exists>v w'. v \<noteq> 0 \<and> res = Ok () w' (acc @ poll_events c k v)) \<or>
             (\<exists>e. res = Raise e (acc @ concat (replicate k (wait_events c))
                                   @ [Afu (Read (MMIO_DONE c)) (Thrown e)]))", OF _ assms], goal_cases)
  case (1 poll c A w acc res)
  show ?case
  proof (cases "AFU_read A (MMIO_DONE c) w")
    case (Inl e)
    with 1(2) have "res = Raise e (acc @ concat (replicate 0 (wait_events c))
                                   @ [Afu (Read (MMIO_DONE c)) (Thrown e)])"
      by simp
    then show ?thesis by blast
  next
    case (Inr vw)
    obtain v w' where vw: "vw = (v, w')" by (cases vw)
    show ?thesis
    proof (cases "v = 0")
      case False
      with 1(2) Inr vw have "res = Ok () w' (acc @ poll_events c 0 v)"
        by (simp add: poll_events_def)
      with False show ?thesis by blast
    next
      case True
      let ?w = "if SLEEP_WHILE_WAITING c then sleep_for A (SLEEP_MS c) w' else w'"
      from 1(2) Inr vw True have "poll c A ?w (acc @ wait_events c) = Some res"
        by (simp add: wait_events_def split: if_splits)
      from 1(1)[OF this] obtain k where
        "(\<exists>v w'. v \<noteq> 0 \<and> res = Ok () w' ((acc @ wait_events c) @ poll_events c k v)) \<or>
         (\<exists>e. res = Raise e ((acc @ wait_events c) @ concat (replicate k (wait_events c))
                                   @ [Afu (Read (MMIO_DONE c)) (Thrown e)]))" by blast
      then have
        "(\<exists>v w'. v \<noteq> 0 \<and> res = Ok () w' (acc @ poll_events c (Suc k) v)) \<or>
         (\<exists>e. res = Raise e (acc @ concat (replicate (Suc k) (wait_events c))
                                   @ [Afu (Read (MMIO_DONE c)) (Thrown e)]))"
        by (simp add: poll_events_def)
      then show ?thesis by blast
    qed
  qed
qed

lemma poll_cases:
  assumes "poll c A w [] = Some res"
  obtains (ok) k v w' where "v \<noteq> 0" "res = Ok () w' (poll_events c k v)"
    | (raise) k e where
        "res = Raise e (concat (replicate k (wait_events c)) @ [Afu (Read (MMIO_DONE c)) (Thrown e)])"
  using poll_cases_aux[OF assms] by auto

lemma wait_events_kind:
  "x \<in> set (wait_events c) \<Longrightarrow> x = Afu (Read (MMIO_DONE c)) (Value 0) \<or> x = Sleep (SLEEP_MS c)"
  by (auto simp: wait_events_def split: if_splits)

lemma poll_kind:
  assumes "poll c A w [] = Some res"
  shows "\<forall>x \<in> set (trace_of res). (\<exists>r. x = Afu (Read (MMIO_DONE c)) r) \<or> x = Sleep (SLEEP_MS c)"
  using assms
proof (cases rule: poll_cases)
  case (ok k v w')
  then show ?thesis by (auto simp: poll_events_def dest: wait_events_kind)
next
  case (raise k e)
  then show ?thesis by (auto dest: wait_events_kind)
qed

lemma wait_events_not_thrown: "x \<in> set (wait_events c) \<Longrightarrow> \<not> is_thrown x"
  by (auto dest: wait_events_kind)

lemma poll_orderly:
  assumes "poll c A w [] = Some res"
  shows "orderly res"
  using assms
proof (cases rule: poll_cases)
  case (ok k v w')
  then show ?thesis by (auto simp: poll_events_def dest: wait_events_not_thrown)
next
  case (raise k e)
  have "\<forall>x \<in> set (concat (replicate k (wait_events c))). \<not> is_thrown x"
    by (auto dest: wait_events_not_thrown)
  with raise show ?thesis by auto
qed

text \<open>The loop returns exactly when a poll is answered, with a value that is not 0 or with an exception.\<close>

lemma done_within_poll:
  "done_within c A k w \<Longrightarrow> \<exists>res. poll c A w acc = Some res"
proof (induction k arbitrary: w acc)
  case 0
  then show ?case by simp
next
  case (Suc k)
  show ?case
  proof (cases "AFU_read A (MMIO_DONE c) w")
    case (Inl e)
    then show ?thesis by (subst poll.simps) simp
  next
    case (Inr vw)
    obtain v w' where vw: "vw = (v, w')" by (cases vw)
    show ?thesis
    proof (cases "v = 0")
      case False
      with Inr vw show ?thesis by (subst poll.simps) simp
    next
      case True
      let ?w = "if SLEEP_WHILE_WAITING c then sleep_for A (SLEEP_MS c) w' else w'"
      from Suc.prems Inr vw True have "done_within c A k ?w" by simp
      from Suc.IH[OF this] have "\<exists>res. poll c A ?w (acc @ wait_events c) = Some res" .
      with Inr vw True show ?thesis
        by (subst poll.simps) (auto simp: wait_events_def)
    qed
  qed
qed

lemma poll_done_within:
  assumes "poll c A w acc = Some res"
  shows "\<exists>k. done_within c A k w"
proof (rule poll.raw_induct[where P = "\<lambda>c A w acc res. \<exists>k. done_within c A k w", OF _ assms], goal_cases)
  case (1 poll c A w acc res)
  show ?case
  proof (cases "AFU_read A (MMIO_DONE c) w")
    case (Inl e)
    then have "done_within c A (Suc 0) w" by simp
    then show ?thesis ..
  next
    case (Inr vw)
    obtain v w' where vw: "vw = (v, w')" by (cases vw)
    show ?thesis
    proof (cases "v = 0")
      case False
      with Inr vw have "done_within c A (Suc 0) w" by simp
      then show ?thesis ..
    next
      case True
      let ?w = "if SLEEP_WHILE_WAITING c then sleep_for A (SLEEP_MS c) w' else w'"
      from 1(2) Inr vw True have "\<exists>acc'. poll c A ?w acc' = Some res"
        by (auto split: if_splits)
      then obtain acc' where "poll c A ?w acc' = Some res" ..
      from 1(1)[OF this] obtain k where "done_within c A k ?w" ..
      with Inr vw True have "done_within c A (Suc k) w" by simp
      then show ?thesis ..
    qed
  qed
qed

lemma allocate_kind:
  "every (\<lambda>x. (\<exists>r. x = Afu (Malloc (unat (DATA_AMOUNT c))) r) \<or> (\<exists>s. x = Cout s)) (allocate c A test w)"
  unfolding allocate_def
  by (intro every_bind every_afu_malloc every_cout every_Ok) auto

lemma allocate_orderly: "orderly_run (allocate c A test w)"
  unfolding allocate_def by (intro orderly_bind) simp_all

lemma init_events_kind:
  "x \<in> set (init_events c input output is rs) \<Longrightarrow> (\<exists>r. x = Rand r) \<or> (\<exists>p i v. x = Store p i v)"
  by (auto simp: init_events_def init_step_def)

lemma initialize_kind:
  "every (\<lambda>x. (\<exists>r. x = Rand r) \<or> (\<exists>p i v. x = Store p i v)) (initialize c A input output w)"
  unfolding every_def using init_events_kind by (fastforce elim!: initialize_cases)

lemma initialize_orderly: "orderly_run (initialize c A input output w)"
  unfolding orderly_run_def using init_events_kind by (fastforce elim!: initialize_cases)

lemma poll_kind': "every (\<lambda>x. (\<exists>r. x = Afu (Read (MMIO_DONE c)) r) \<or> x = Sleep (SLEEP_MS c)) (poll c A w [])"
  by (auto simp: every_def dest: poll_kind)

lemma poll_orderly': "orderly_run (poll c A w [])"
  by (auto simp: orderly_run_def intro: poll_orderly)

subsection \<open>Verification and report\<close>

lemma count_errors_eq:
  "count_errors A input output is w errors =
     (errors + of_nat (length (filter (\<lambda>i. load A output i w \<noteq> load A input i w) is)),
      compare_events A input output is w)"
  by (induction "is" arbitrary: errors) (simp_all add: compare_events_def Let_def)

lemma mismatches_filter:
  "mismatches A input output n w = length (filter (\<lambda>i. load A output i w \<noteq> load A input i w) [0 ..< n])"
  by (auto simp: mismatches_def distinct_length_filter intro!: arg_cong[where f = card])

lemma mismatches_le: "mismatches A input output n w \<le> n"
  unfolding mismatches_filter using length_filter_le[of _ "[0 ..< n]"] by simp

lemma verify_eq:
  "verify c A input output w =
     Some (Ok (of_nat (mismatches A input output (unat (DATA_AMOUNT c)) w)) w
            (compare_events A input output [0 ..< unat (DATA_AMOUNT c)] w))"
  by (simp add: verify_def count_errors_eq mismatches_filter)

lemma unat_mismatches:
  "unat (of_nat (mismatches A input output (unat (n :: unsigned)) w) :: unsigned)
     = mismatches A input output (unat n) w"
proof -
  have "mismatches A input output (unat n) w \<le> unat n" by (rule mismatches_le)
  also have "unat n < 2 ^ 32" using unsigned_less[of n] by simp
  finally show ?thesis by (simp add: of_nat_inverse)
qed

lemma compare_events_kind: "x \<in> set (compare_events A input output is w) \<Longrightarrow> is_load x"
  by (auto simp: compare_events_def)

lemma report_Ok:
  assumes "report c A errors w = Some (Ok u w' tr)"
  obtains resets where "tr = report_events resets errors"
proof -
  from assms obtain resets w1 tr1 tr2 where
    1: "afu_read A 0x0060 w = Some (Ok resets w1 tr1)" and
    2: "tr = [Cout ''# of resets: ''] @ tr1 @ [Cout (hex (unat resets) @ endl)] @ tr2" and
    3: "bind_res (if 0 < errors then cout (failure_line errors) w1 else Some (Ok () w1 []))
          (\<lambda>_ w. cout success_line w) = Some (Ok u w' tr2)"
    unfolding report_def bind_res_Ok_iff failure_line_def success_line_def
    by (auto simp: cout_def)
  from 1 have tr1: "tr1 = [Afu (Read 0x0060) (Value resets)]"
    by (auto elim!: afu_read_cases)
  from 3 have "tr2 = (if 0 < errors then [Cout (failure_line errors)] else []) @ [Cout success_line]"
    unfolding bind_res_Ok_iff by (auto simp: cout_def split: if_splits)
  with 2 tr1 have "tr = report_events resets errors"
    by (simp add: report_events_def)
  then show ?thesis by (rule that)
qed

lemma report_kind:
  "every (\<lambda>x. (\<exists>s. x = Cout s) \<or> (\<exists>r. x = Afu (Read 0x0060) r)) (report c A errors w)"
  unfolding report_def
  by (intro every_bind every_afu_read every_cout) (auto intro!: every_cout every_Ok)

lemma report_orderly: "orderly_run (report c A errors w)"
  unfolding report_def by (intro orderly_bind) simp_all

lemma release_Ok:
  assumes "release A input output w = Some (Ok u w' tr)"
  shows "tr = release_events input output"
  using assms
  by (auto simp: release_def bind_res_Ok_iff release_events_def elim!: afu_free_cases)

lemma release_kind:
  "every (\<lambda>x. \<exists>p r. x = Afu (Free p) r) (release A input output w)"
  unfolding release_def by (intro every_bind every_afu_free) auto

lemma release_orderly: "orderly_run (release A input output w)"
  unfolding release_def by (intro orderly_bind) simp_all

subsection \<open>One iteration\<close>

lemma verify_kind: "every is_load (verify c A input output w)"
  by (auto simp: verify_eq every_def dest: compare_events_kind)

lemma is_load_not_thrown: "is_load x \<Longrightarrow> \<not> is_thrown x"
  by (cases x) simp_all

lemma verify_orderly: "orderly_run (verify c A input output w)"
  by (auto simp: verify_eq orderly_run_def dest!: compare_events_kind is_load_not_thrown)

lemma test_body_Ok:
  assumes "test_body c A test w = Some (Ok u w' tr)"
  obtains pin pout rs n k v w2 resets where
    "length rs = unat (DATA_AMOUNT c)" "num_cls c = Some n" "v \<noteq> 0"
    "tr = alloc_events c test pin pout
        @ init_events c pin pout [0 ..< unat (DATA_AMOUNT c)] rs
        @ program_events c pin pout n
        @ poll_events c k v
        @ compare_events A pin pout [0 ..< unat (DATA_AMOUNT c)] w2
        @ report_events resets (of_nat (mismatches A pin pout (unat (DATA_AMOUNT c)) w2))
        @ release_events pin pout"
proof -
  from assms[unfolded test_body_def] obtain io w1 tr1 trA where
    1: "allocate c A test w = Some (Ok io w1 tr1)" and
    A: "(case io of (input, output) \<Rightarrow> \<lambda>w.
           bind_res (initialize c A input output w) (\<lambda>_ w.
           bind_res (program c A input output w) (\<lambda>_ w.
           bind_res (poll c A w []) (\<lambda>_ w.
           bind_res (verify c A input output w) (\<lambda>errors w.
           bind_res (report c A errors w) (\<lambda>_ w.
           release A input output w)))))) w1 = Some (Ok u w' trA)" and
    t1: "tr = tr1 @ trA"
    by (rule bind_res_OkE)
  obtain pin pout where io: "io = (pin, pout)" by (cases io)
  from 1 io have tr1: "tr1 = alloc_events c test pin pout"
    by (auto elim!: allocate_cases)
  from A io have "bind_res (initialize c A pin pout w1) (\<lambda>_ w.
           bind_res (program c A pin pout w) (\<lambda>_ w.
           bind_res (poll c A w []) (\<lambda>_ w.
           bind_res (verify c A pin pout w) (\<lambda>errors w.
           bind_res (report c A errors w) (\<lambda>_ w.
           release A pin pout w))))) = Some (Ok u w' trA)"
    by simp
  then obtain u2 w2 tr2 trB where
    2: "initialize c A pin pout w1 = Some (Ok u2 w2 tr2)" and
    B: "bind_res (program c A pin pout w2) (\<lambda>_ w.
           bind_res (poll c A w []) (\<lambda>_ w.
           bind_res (verify c A pin pout w) (\<lambda>errors w.
           bind_res (report c A errors w) (\<lambda>_ w.
           release A pin pout w)))) = Some (Ok u w' trB)" and
    t2: "trA = tr2 @ trB"
    by (rule bind_res_OkE)
  from 2 obtain rs where rs: "length rs = unat (DATA_AMOUNT c)"
    "tr2 = init_events c pin pout [0 ..< unat (DATA_AMOUNT c)] rs"
    by (auto elim!: initialize_cases)
  from B obtain u3 w3 tr3 trC where
    3: "program c A pin pout w2 = Some (Ok u3 w3 tr3)" and
    C: "bind_res (poll c A w3 []) (\<lambda>_ w.
           bind_res (verify c A pin pout w) (\<lambda>errors w.
           bind_res (report c A errors w) (\<lambda>_ w.
           release A pin pout w))) = Some (Ok u w' trC)" and
    t3: "trB = tr3 @ trC"
    by (rule bind_res_OkE)
  from 3 obtain n where n: "num_cls c = Some n" "tr3 = program_events c pin pout n"
    by (rule program_Ok)
  from C obtain u4 w4 tr4 trD where
    4: "poll c A w3 [] = Some (Ok u4 w4 tr4)" and
    D: "bind_res (verify c A pin pout w4) (\<lambda>errors w.
           bind_res (report c A errors w) (\<lambda>_ w.
           release A pin pout w)) = Some (Ok u w' trD)" and
    t4: "trC = tr4 @ trD"
    by (rule bind_res_OkE)
  from 4 obtain k v where kv: "v \<noteq> 0" "tr4 = poll_events c k v"
    by (auto elim!: poll_cases)
  let ?e = "of_nat (mismatches A pin pout (unat (DATA_AMOUNT c)) w4) :: unsigned"
  from D obtain e5 w5 tr5 trE where
    5: "verify c A pin pout w4 = Some (Ok e5 w5 tr5)" and
    E: "bind_res (report c A e5 w5) (\<lambda>_ w. release A pin pout w) = Some (Ok u w' trE)" and
    t5: "trD = tr5 @ trE"
    by (rule bind_res_OkE)
  from 5 have v5: "e5 = ?e" "w5 = w4" "tr5 = compare_events A pin pout [0 ..< unat (DATA_AMOUNT c)] w4"
    by (auto simp: verify_eq)
  from E obtain u6 w6 tr6 tr7 where
    6: "report c A e5 w5 = Some (Ok u6 w6 tr6)" and
    F: "release A pin pout w6 = Some (Ok u w' tr7)" and
    t6: "trE = tr6 @ tr7"
    by (rule bind_res_OkE)
  from 6 obtain resets where resets: "tr6 = report_events resets e5"
    by (rule report_Ok)
  from F have tr7: "tr7 = release_events pin pout" by (rule release_Ok)
  show ?thesis
    by (rule that[OF rs(1) n(1) kv(1)])
       (simp add: t1 tr1 t2 rs(2) t3 n(2) t4 kv(2) t5 v5 t6 resets tr7)
qed

lemma test_body_orderly: "orderly_run (test_body c A test w)"
  unfolding test_body_def
  by (auto simp: split_def intro!: orderly_bind allocate_orderly initialize_orderly program_orderly
        poll_orderly' verify_orderly report_orderly release_orderly)

text \<open>An iteration that gets as far as the initialisation starts with these events.\<close>

lemma alloc_events_kind:
  "x \<in> set (alloc_events c test pin pout) \<Longrightarrow>
     (\<exists>r. x = Afu (Malloc (unat (DATA_AMOUNT c))) r) \<or> (\<exists>s. x = Cout s)"
  by (auto simp: alloc_events_def)

lemma test_body_cases:
  assumes "test_body c A test w = Some res"
  obtains (early) "\<forall>x \<in> set (trace_of res). \<exists>r. x = Afu (Malloc (unat (DATA_AMOUNT c))) r"
    | (started) pin pout rs w2 res3 where
        "length rs = unat (DATA_AMOUNT c)"
        "bind_res (program c A pin pout w2) (\<lambda>_ w.
           bind_res (poll c A w []) (\<lambda>_ w.
           bind_res (verify c A pin pout w) (\<lambda>errors w.
           bind_res (report c A errors w) (\<lambda>_ w.
           release A pin pout w)))) = Some res3"
        "trace_of res = alloc_events c test pin pout
           @ init_events c pin pout [0 ..< unat (DATA_AMOUNT c)] rs @ trace_of res3"
  using assms unfolding test_body_def
proof (cases rule: bind_res_cases)
  case (raise e tr)
  from raise(1) have "\<forall>x \<in> set tr. \<exists>r. x = Afu (Malloc (unat (DATA_AMOUNT c))) r"
    by (auto elim!: allocate_cases)
  with raise(2) early show ?thesis by simp
next
  case (undef tr)
  then show ?thesis by (auto elim!: allocate_cases)
next
  case (ok io w1 tr1 res2)
  obtain pin pout where io: "io = (pin, pout)" by (cases io)
  from ok(1) io have tr1: "tr1 = alloc_events c test pin pout"
    by (auto elim!: allocate_cases)
  from ok(2) io have "bind_res (initialize c A pin pout w1) (\<lambda>_ w.
           bind_res (program c A pin pout w) (\<lambda>_ w.
           bind_res (poll c A w []) (\<lambda>_ w.
           bind_res (verify c A pin pout w) (\<lambda>errors w.
           bind_res (report c A errors w) (\<lambda>_ w.
           release A pin pout w))))) = Some res2"
    by simp
  then show ?thesis
  proof (cases rule: bind_res_cases)
    case (raise e tr)
    then show ?thesis by (auto elim!: initialize_cases)
  next
    case (undef tr)
    then show ?thesis by (auto elim!: initialize_cases)
  next
    case inner: (ok u2 w2 tr2 res3)
    from inner(1) obtain rs where rs: "length rs = unat (DATA_AMOUNT c)"
      "tr2 = init_events c pin pout [0 ..< unat (DATA_AMOUNT c)] rs"
      by (auto elim!: initialize_cases)
    show ?thesis
      by (rule started[OF rs(1) inner(2)]) (simp add: ok(3) inner(3) tr1 rs(2))
  qed
qed

text \<open>What follows the polling loop: the comparison, then events that are no reads of a buffer.\<close>

lemma after_poll_cases:
  assumes "bind_res (verify c A pin pout w) (\<lambda>errors w.
             bind_res (report c A errors w) (\<lambda>_ w. release A pin pout w)) = Some res"
  obtains rest where
    "trace_of res = compare_events A pin pout [0 ..< unat (DATA_AMOUNT c)] w @ rest"
    "\<forall>x \<in> set rest. \<not> is_load x"
proof -
  let ?e = "of_nat (mismatches A pin pout (unat (DATA_AMOUNT c)) w) :: unsigned"
  let ?m = "bind_res (report c A ?e w) (\<lambda>_ w. release A pin pout w)"
  have "every (\<lambda>x. \<not> is_load x) ?m"
    by (intro every_bind every_mono[OF report_kind] every_mono[OF release_kind]) auto
  moreover from assms obtain res2 where "?m = Some res2"
    "res = prepend (compare_events A pin pout [0 ..< unat (DATA_AMOUNT c)] w) res2"
    by (auto simp: verify_eq)
  ultimately show ?thesis
    by (intro that[of "trace_of res2"]) (auto simp: every_def)
qed

lemma test_body_loads:
  assumes "test_body c A test w = Some res"
  obtains (none) "\<forall>x \<in> set (trace_of res). \<not> is_load x"
    | (verified) pin pout rs n k v w2 rest where
        "length rs = unat (DATA_AMOUNT c)" "num_cls c = Some n" "v \<noteq> 0"
        "trace_of res = alloc_events c test pin pout
           @ init_events c pin pout [0 ..< unat (DATA_AMOUNT c)] rs
           @ program_events c pin pout n
           @ poll_events c k v
           @ compare_events A pin pout [0 ..< unat (DATA_AMOUNT c)] w2 @ rest"
        "\<forall>x \<in> set rest. \<not> is_load x"
  using assms
proof (cases rule: test_body_cases)
  case early
  then have "\<forall>x \<in> set (trace_of res). \<not> is_load x" by fastforce
  then show ?thesis by (rule none)
next
  case (started pin pout rs w2 res3)
  let ?pre = "alloc_events c test pin pout @ init_events c pin pout [0 ..< unat (DATA_AMOUNT c)] rs"
  have pre: "\<forall>x \<in> set ?pre. \<not> is_load x"
    by (auto dest!: alloc_events_kind init_events_kind)
  from started(2) show ?thesis
  proof (cases rule: bind_res_cases)
    case (raise e tr)
    with program_kind[of c A pin pout w2] have "\<forall>x \<in> set (trace_of res3). \<not> is_load x"
      by (fastforce simp: every_def)
    with pre started(3) have "\<forall>x \<in> set (trace_of res). \<not> is_load x" by auto
    then show ?thesis by (rule none)
  next
    case (undef tr)
    with program_kind[of c A pin pout w2] have "\<forall>x \<in> set (trace_of res3). \<not> is_load x"
      by (fastforce simp: every_def)
    with pre started(3) have "\<forall>x \<in> set (trace_of res). \<not> is_load x" by auto
    then show ?thesis by (rule none)
  next
    case p: (ok u3 w3 tr3 res4)
    from p(1) obtain n where n: "num_cls c = Some n" "tr3 = program_events c pin pout n"
      by (rule program_Ok)
    have tr3: "\<forall>x \<in> set tr3. \<not> is_load x"
      unfolding n(2) by (simp add: program_events_def)
    from p(2) show ?thesis
    proof (cases rule: bind_res_cases)
      case (raise e tr)
      with poll_kind'[of c A w3] have "\<forall>x \<in> set (trace_of res4). \<not> is_load x"
        by (fastforce simp: every_def)
      with pre tr3 started(3) p(3) have "\<forall>x \<in> set (trace_of res). \<not> is_load x" by auto
      then show ?thesis by (rule none)
    next
      case (undef tr)
      with poll_kind'[of c A w3] have "\<forall>x \<in> set (trace_of res4). \<not> is_load x"
        by (fastforce simp: every_def)
      with pre tr3 started(3) p(3) have "\<forall>x \<in> set (trace_of res). \<not> is_load x" by auto
      then show ?thesis by (rule none)
    next
      case q: (ok u4 w4 tr4 res5)
      from q(1) obtain k v where kv: "v \<noteq> 0" "tr4 = poll_events c k v"
        by (auto elim!: poll_cases)
      from q(2) obtain rest where rest:
        "trace_of res5 = compare_events A pin pout [0 ..< unat (DATA_AMOUNT c)] w4 @ rest"
        "\<forall>x \<in> set rest. \<not> is_load x"
        by (rule after_poll_cases)
      show ?thesis
        by (rule verified[OF started(1) n(1) kv(1) _ rest(2)])
           (simp add: started(3) p(3) q(3) n(2) kv(2) rest(1))
    qed
  qed
qed

subsection \<open>Lists of events\<close>

lemma split_in_middle:
  assumes eq: "xs @ ys @ zs = pre @ e # post"
    and e: "P e" and xs: "\<forall>x \<in> set xs. \<not> P x" and zs: "\<forall>x \<in> set zs. \<not> P x"
  obtains ls where "pre = xs @ ls" "\<forall>x \<in> set ls. x \<in> set ys"
proof -
  from eq obtain us where
    "(xs = pre @ us \<and> us @ ys @ zs = e # post) \<or> (xs @ us = pre \<and> ys @ zs = us @ e # post)"
    unfolding append_eq_append_conv2 by blast
  then show ?thesis
  proof
    assume a: "xs = pre @ us \<and> us @ ys @ zs = e # post"
    have "us = []"
    proof (rule ccontr)
      assume "us \<noteq> []"
      with a have "e \<in> set us" by (cases us) auto
      with a xs e show False by auto
    qed
    with a show ?thesis by (intro that[of "[]"]) auto
  next
    assume a: "xs @ us = pre \<and> ys @ zs = us @ e # post"
    then obtain vs where
      "(ys = us @ vs \<and> vs @ zs = e # post) \<or> (ys @ vs = us \<and> zs = vs @ e # post)"
      unfolding append_eq_append_conv2 by blast
    then show ?thesis
    proof
      assume "ys = us @ vs \<and> vs @ zs = e # post"
      with a show ?thesis by (intro that[of us]) auto
    next
      assume "ys @ vs = us \<and> zs = vs @ e # post"
      with zs e show ?thesis by auto
    qed
  qed
qed

lemma split_after_prefix:
  assumes eq: "xs @ zs = pre @ e # post" and e: "P e" and xs: "\<forall>x \<in> set xs. \<not> P x"
  obtains ls where "pre = xs @ ls"
proof -
  from eq obtain us where
    "(xs = pre @ us \<and> us @ zs = e # post) \<or> (xs @ us = pre \<and> zs = us @ e # post)"
    unfolding append_eq_append_conv2 by blast
  then show ?thesis
  proof
    assume a: "xs = pre @ us \<and> us @ zs = e # post"
    have "us = []"
    proof (rule ccontr)
      assume "us \<noteq> []"
      with a have "e \<in> set us" by (cases us) auto
      with a xs e show False by auto
    qed
    with a show ?thesis by (intro that[of "[]"]) auto
  next
    assume "xs @ us = pre \<and> zs = us @ e # post"
    then show ?thesis by (intro that[of us]) auto
  qed
qed

subsection \<open>The whole run\<close>

lemma bind_res_return: "bind_res m (\<lambda>_ w. Some (Ok () w [])) = m"
proof (cases m)
  case None
  then show ?thesis by simp
next
  case (Some x)
  then show ?thesis by (cases x) auto
qed

lemma test_loop_NUM_TESTS: "test_loop c A [0 ..< NUM_TESTS] w = test_body c A 0 w"
proof -
  have e: "test_loop c A [] = (\<lambda>w. Some (Ok () w []))"
    by (rule ext) simp
  show ?thesis
    by (simp add: NUM_TESTS_def e bind_res_return)
qed

lemma try_block_eq:
  "try_block c A w = bind_res (afu_new A (AFU_ACCEL_UUID c) w) (\<lambda>_ w. test_body c A 0 w)"
  by (simp add: try_block_def test_loop_NUM_TESTS)

lemma try_block_cases:
  assumes "try_block c A w = Some res"
  obtains (no_afu) e where "res = Raise e [Afu (New (AFU_ACCEL_UUID c)) (Thrown e)]"
    | (tested) w1 res1 where "test_body c A 0 w1 = Some res1"
        "res = prepend [Afu (New (AFU_ACCEL_UUID c)) Void] res1"
  using assms unfolding try_block_eq
proof (cases rule: bind_res_cases)
  case (raise e tr)
  then show ?thesis using no_afu by (auto elim!: afu_new_cases)
next
  case (undef tr)
  then show ?thesis by (auto elim!: afu_new_cases)
next
  case (ok r w1 tr1 res2)
  then show ?thesis using tested[of w1 res2] by (auto elim!: afu_new_cases)
qed

lemma try_block_orderly: "orderly_run (try_block c A w)"
  unfolding try_block_eq by (intro orderly_bind test_body_orderly) simp

lemma main_cases:
  assumes "main c A w = Some (oc, tr)"
  obtains (success) u w' where "try_block c A w = Some (Ok u w' tr)" "oc = Exit EXIT_SUCCESS"
    | (failure) e tr0 where "try_block c A w = Some (Raise e tr0)" "oc = Exit EXIT_FAILURE"
        "tr = tr0 @ [Cerr (handler c e)]"
    | (undefined) "try_block c A w = Some (Undef tr)" "oc = Undefined"
  using assms by (auto simp: main_def split: option.splits res.splits)

lemma main_None_iff: "main c A w = None \<longleftrightarrow> try_block c A w = None"
  by (auto simp: main_def split: option.splits res.splits)

subsection \<open>Runs with the simulated accelerator\<close>

lemma test_config_sel:
  "AFU_ACCEL_UUID test_config = ''5dc2fa52-d3b0-4f1a-a1f4-1c4eb0a2a3b7''"
  "DATA_AMOUNT test_config = 2" "sizeof_dma_data_t test_config = 8"
  "dma_data_of_int test_config = word_of_int" "CL_BYTES test_config = 64"
  "MMIO_RD_ADDR test_config = 0x52" "MMIO_WR_ADDR test_config = 0x54"
  "MMIO_SIZE test_config = 0x56" "MMIO_GO test_config = 0x50" "MMIO_DONE test_config = 0x58"
  "SLEEP_WHILE_WAITING test_config = True" "SLEEP_MS test_config = 10"
  "fpgaErrStr test_config = (\<lambda>_. ''exception'')"
  by (simp_all add: test_config_def)

lemma f32_round_16: "f32_round 16 = 16" by code_simp
lemma f32_round_64: "f32_round 64 = 64" by code_simp
lemma f32_round_quarter: "f32_round (1 / 4) = 1 / 4" by code_simp

lemma ceiling_quarter: "\<lceil>1 / 4 :: rat\<rceil> = 1"
  by (rule ceiling_unique) simp_all

lemma total_bytes_test_config: "total_bytes test_config = 16"
  by (simp add: total_bytes_def test_config_sel)

lemma no_rounding_test_config: "no_rounding test_config"
  by (simp add: no_rounding_def total_bytes_test_config test_config_sel float_of_unsigned_def
      f32_round_16 f32_round_64 f32_round_quarter)

lemma num_cls_test_config: "num_cls test_config = Some 1"
  by (simp add: num_cls_def total_bytes_test_config test_config_sel float_of_unsigned_def
      f32_round_16 f32_round_64 f32_round_quarter ceiling_quarter Let_def)

lemmas run_defs =
  test_body_def allocate_def initialize_def program_def verify_def report_def release_def
  afu_new_def afu_malloc_def afu_write_def afu_read_def afu_free_def cout_def
  sim_afu_def sim_start_def no_fault_def fault_on_def test_config_sel num_cls_test_config
  poll.simps hex.simps hex_digit_def upt_rec

lemma good_iteration:
  "\<exists>w'. test_body test_config (sim_afu test_config True no_fault) 0 sim_start
          = Some (Ok () w' good_events)"
  by (simp add: run_defs good_events_def)

lemma mismatch_iteration:
  "\<exists>w'. test_body test_config (sim_afu test_config False no_fault) 0 sim_start
          = Some (Ok () w' mismatch_events)"
  by (simp add: run_defs mismatch_events_def)

lemma main_mismatch: "main test_config (sim_afu test_config False no_fault) sim_start =
     Some (Exit EXIT_SUCCESS, Afu (New (AFU_ACCEL_UUID test_config)) Void # mismatch_events)"
  by (simp add: main_def try_block_eq run_defs mismatch_events_def)

lemma total_bytes_big: "total_bytes big_config = 0"
  by (simp add: total_bytes_def big_config_def test_config_def)

subsection \<open>Single precision rounds nothing that has 24 significant bits\<close>

lemma pow2_powi: "pow2 e = 2 powi e"
  by (simp add: pow2_def power_int_def power_one_over[symmetric] inverse_eq_divide)

lemma powi_bitlen:
  assumes "0 < (p :: int)"
  shows "2 powi (bitlen p - 1) \<le> (of_int p :: rat)" "(of_int p :: rat) < 2 powi (bitlen p)"
proof -
  from bitlen_bounds[OF assms] have b: "2 ^ nat (bitlen p - 1) \<le> p" "p < 2 ^ nat (bitlen p)"
    by blast+
  have ge: "1 \<le> bitlen p"
  proof (rule ccontr)
    assume "\<not> 1 \<le> bitlen p"
    then have "nat (bitlen p) = 0" by simp
    with b(2) assms show False by simp
  qed
  from b(1) have "(of_int (2 ^ nat (bitlen p - 1)) :: rat) \<le> of_int p"
    by (simp only: of_int_le_iff)
  then show "2 powi (bitlen p - 1) \<le> (of_int p :: rat)"
    using ge by (simp add: power_int_def)
  from b(2) have "(of_int p :: rat) < of_int (2 ^ nat (bitlen p))"
    by (simp only: of_int_less_iff)
  then show "(of_int p :: rat) < 2 powi (bitlen p)"
    using ge by (simp add: power_int_def)
qed

lemma ilog2_bounds:
  assumes "0 < x"
  shows "2 powi (ilog2 x) \<le> x" "x < 2 powi (ilog2 x + 1)"
proof -
  obtain p q where pq: "quotient_of x = (p, q)" by (cases "quotient_of x")
  then have q: "0 < q" and x: "x = of_int p / of_int q"
    by (rule quotient_of_denom_pos, rule quotient_of_div)
  from assms x q have p: "0 < p"
    by (simp add: zero_less_divide_iff)
  let ?k = "bitlen p - bitlen q"
  have qpos: "(0 :: rat) < of_int q" using q by simp
  have "x < 2 powi (bitlen p) / of_int q"
    unfolding x using powi_bitlen(2)[OF p] qpos by (simp add: divide_strict_right_mono)
  also have "\<dots> \<le> 2 powi (bitlen p) / 2 powi (bitlen q - 1)"
    using powi_bitlen(1)[OF q] qpos by (intro divide_left_mono) simp_all
  also have "\<dots> = 2 powi (?k + 1)"
    by (simp add: power_int_diff[symmetric] algebra_simps)
  finally have up: "x < 2 powi (?k + 1)" .
  have "2 powi (?k - 1) = 2 powi (bitlen p - 1) / (2 powi (bitlen q) :: rat)"
    by (simp add: power_int_diff[symmetric] algebra_simps)
  also have "\<dots> \<le> 2 powi (bitlen p - 1) / of_int q"
    using powi_bitlen(2)[OF q] qpos by (intro divide_left_mono) simp_all
  also have "\<dots> \<le> x"
    unfolding x using powi_bitlen(1)[OF p] qpos by (simp add: divide_right_mono)
  finally have low: "2 powi (?k - 1) \<le> x" .
  have il: "ilog2 x = (if 2 powi ?k \<le> x then ?k else ?k - 1)"
    by (simp add: ilog2_def pq pow2_powi)
  show "2 powi (ilog2 x) \<le> x"
    using low by (simp add: il)
  show "x < 2 powi (ilog2 x + 1)"
    using up by (simp add: il not_le)
qed

lemma round_half_even_of_int: "round_half_even (of_int m) = m"
  by (simp add: round_half_even_def)

lemma f32_round_exact:
  assumes "0 < m" and "m < 2 ^ 24"
  shows "f32_round (of_int m * 2 powi s) = of_int m * 2 powi s"
proof -
  let ?x = "of_int m * 2 powi s :: rat"
  let ?e = "ilog2 ?x"
  have x: "0 < ?x" using assms(1) by simp
  have "?x < 2 ^ 24 * 2 powi s"
  proof -
    have "(of_int m :: rat) < of_int (2 ^ 24)" using assms(2) by (simp only: of_int_less_iff)
    then show ?thesis by simp
  qed
  also have "\<dots> = 2 powi (s + 24)"
    by (simp add: power_int_add)
  finally have "2 powi ?e < (2 powi (s + 24) :: rat)"
    using ilog2_bounds(1)[OF x] by simp
  then have "?e < s + 24"
  proof (rule contrapos_pp)
    assume "\<not> ?e < s + 24"
    then have "(2 powi (s + 24) :: rat) \<le> 2 powi ?e"
      by (intro power_int_increasing) simp_all
    then show "\<not> 2 powi ?e < (2 powi (s + 24) :: rat)" by simp
  qed
  then have d: "0 \<le> s - (?e - 23)" by simp
  have "?x / 2 powi (?e - 23) = of_int m * 2 powi (s - (?e - 23))"
    by (simp add: power_int_diff)
  also have "\<dots> = of_int (m * 2 ^ nat (s - (?e - 23)))"
    using d by (simp add: power_int_def)
  finally have q: "?x / 2 powi (?e - 23) = of_int (m * 2 ^ nat (s - (?e - 23)))" .
  have "f32_round ?x = of_int (round_half_even (?x / 2 powi (?e - 23))) * 2 powi (?e - 23)"
    using x by (simp add: f32_round_def pow2_powi Let_def not_le[symmetric] del: of_int_mult)
  also have "\<dots> = (?x / 2 powi (?e - 23)) * 2 powi (?e - 23)"
    unfolding q round_half_even_of_int ..
  also have "\<dots> = ?x" by simp
  finally show ?thesis .
qed

lemma f32_round_nat:
  assumes "n < 2 ^ 24"
  shows "f32_round (of_nat n) = of_nat n" "f32_round (of_nat n / 64) = of_nat n / 64"
proof -
  show "f32_round (of_nat n) = of_nat n"
  proof (cases "n = 0")
    case True
    then show ?thesis by (simp add: f32_round_def)
  next
    case False
    with assms have "0 < int n" "int n < 2 ^ 24" by simp_all
    from f32_round_exact[OF this, of 0] show ?thesis by simp
  qed
  show "f32_round (of_nat n / 64) = of_nat n / 64"
  proof (cases "n = 0")
    case True
    then show ?thesis by (simp add: f32_round_def)
  next
    case False
    with assms have "0 < int n" "int n < 2 ^ 24" by simp_all
    from f32_round_exact[OF this, of "- 6"] show ?thesis
      by (simp add: power_int_minus inverse_eq_divide)
  qed
qed

text \<open>
  Buffers of less than \<open>2^24\<close> bytes, in cache lines of 64 bytes: nothing is rounded, and
  the size written is the exact ceiling.
\<close>

lemma no_rounding_small:
  assumes "unat (DATA_AMOUNT c) * sizeof_dma_data_t c < 2 ^ 24" and "CL_BYTES c = 64"
  shows "no_rounding c"
proof -
  let ?a = "unat (DATA_AMOUNT c) * sizeof_dma_data_t c"
  have "?a < 2 ^ 32" using assms(1) by simp
  then have tb: "unat (total_bytes c) = ?a"
    unfolding total_bytes_def unat_of_nat by simp
  have "f32_round (of_nat ?a) = of_nat ?a" "f32_round (of_nat ?a / 64) = of_nat ?a / 64"
    using f32_round_nat[OF assms(1)] by blast+
  then show ?thesis
    unfolding no_rounding_def float_of_unsigned_def tb assms(2)
    by (simp add: f32_round_64)
qed

subsection \<open>The lines written to \<open>cout\<close>\<close>

lemma hex_ne: "hex n \<noteq> []"
  by (subst hex.simps) simp

lemma hex_digit_in: "d < 16 \<Longrightarrow> hex_digit d \<in> set ''0123456789abcdef''"
  unfolding hex_digit_def by (rule nth_mem) simp

lemma hex_chars: "set (hex n) \<subseteq> set ''0123456789abcdef''"
proof (induction n rule: hex.induct)
  case (1 n)
  show ?case
  proof (cases "n < 16")
    case True
    then show ?thesis using hex_digit_in[of n] by (subst hex.simps) simp
  next
    case False
    have "hex_digit (n mod 16) \<in> set ''0123456789abcdef''" by (rule hex_digit_in) simp
    with False 1 show ?thesis by (subst hex.simps) simp
  qed
qed

lemma hex_head: "hex n @ s = ch # t \<Longrightarrow> ch \<in> set ''0123456789abcdef''"
proof -
  assume a: "hex n @ s = ch # t"
  obtain d ds where d: "hex n = d # ds" using hex_ne[of n] by (cases "hex n") auto
  with a have "ch = d" by simp
  moreover from d hex_chars[of n] have "d \<in> set ''0123456789abcdef''" by auto
  ultimately show ?thesis by simp
qed

lemma hex_not_upper:
  "hex n @ s \<noteq> CHR ''F'' # t" "CHR ''F'' # t \<noteq> hex n @ s"
  "hex n @ s \<noteq> CHR ''D'' # t" "CHR ''D'' # t \<noteq> hex n @ s"
  using hex_head[of n s "CHR ''F''" t] hex_head[of n s "CHR ''D''" t] by auto

lemma failure_line_neq:
  "failure_line e \<noteq> hex n @ s" "failure_line e \<noteq> ''Test '' @ s"
  "failure_line e \<noteq> ''# of resets: ''" "failure_line e \<noteq> success_line"
  by (simp_all add: failure_line_def success_line_def hex_not_upper)

lemma success_line_neq:
  "success_line \<noteq> hex n @ s" "success_line \<noteq> ''Test '' @ s"
  "success_line \<noteq> ''# of resets: ''" "success_line \<noteq> failure_line e"
  by (simp_all add: failure_line_def success_line_def hex_not_upper)

lemma cout_in_events [simp]:
  "Cout s \<notin> set (init_events c pin pout is rs)"
  "Cout s \<notin> set (program_events c pin pout n)"
  "Cout s \<notin> set (poll_events c k v)"
  "Cout s \<notin> set (compare_events A pin pout is w)"
  "Cout s \<notin> set (release_events pin pout)"
  by (auto simp: program_events_def poll_events_def release_events_def
      dest: init_events_kind wait_events_kind compare_events_kind)

lemma cout_in_alloc:
  "Cout s \<in> set (alloc_events c test pin pout) \<longleftrightarrow>
     s = hex (unat pin) @ endl \<or> s = hex (unat pout) @ endl \<or> s = ''Test '' @ hex test @ ''...'' @ endl"
  by (auto simp: alloc_events_def)

lemma cout_in_report:
  "Cout s \<in> set (report_events resets errors :: 'a event list) \<longleftrightarrow>
     s = ''# of resets: '' \<or> s = hex (unat resets) @ endl \<or> (0 < errors \<and> s = failure_line errors)
     \<or> s = success_line"
  by (auto simp: report_events_def)

lemma failure_reported_iff:
  "Cout (failure_line e) \<in> set (alloc_events c test pin pout
        @ init_events c pin pout is rs @ program_events c pin pout n @ poll_events c k v
        @ compare_events A pin pout is w2 @ report_events resets e @ release_events pin pout)
   \<longleftrightarrow> 0 < e"
  using failure_line_neq[of e]
  by (auto simp: cout_in_alloc cout_in_report)

lemma count_list_notin: "x \<notin> set xs \<Longrightarrow> count_list xs x = 0"
  by (simp add: count_list_0_iff)

lemma success_once:
  "count_list (alloc_events c test pin pout
        @ init_events c pin pout is rs @ program_events c pin pout n @ poll_events c k v
        @ compare_events A pin pout is w2 @ report_events resets e @ release_events pin pout)
     (Cout success_line) = 1"
proof -
  have "Cout success_line \<notin> set (alloc_events c test pin pout)"
    using success_line_neq by (auto simp: cout_in_alloc)
  moreover have "count_list (report_events resets e) (Cout success_line) = 1"
    using success_line_neq(1)[of "unat resets" endl] success_line_neq(3) success_line_neq(4)[of e]
    by (simp add: report_events_def)
  ultimately show ?thesis
    by (simp add: count_list_notin)
qed

subsection \<open>Kinds of events in the phases\<close>

lemma buffer_calls_in_events:
  "\<forall>x \<in> set (init_events c pin pout is rs). \<not> is_buffer_call x"
  "\<forall>x \<in> set (program_events c pin pout n). \<not> is_buffer_call x"
  "\<forall>x \<in> set (poll_events c k v). \<not> is_buffer_call x"
  "\<forall>x \<in> set (compare_events A pin pout is w). \<not> is_buffer_call x"
  "\<forall>x \<in> set (report_events resets e). \<not> is_buffer_call x"
  by (auto simp: program_events_def poll_events_def report_events_def
      dest!: init_events_kind wait_events_kind compare_events_kind elim: is_load.elims)

lemma init_events_nth:
  assumes "i < length rs"
  shows "set [Rand (rs ! i), Store pin i (dma_data_of_int c (rs ! i)), Store pout i (dma_data_of_int c 0)]
           \<subseteq> set (init_events c pin pout [0 ..< length rs] rs)"
proof -
  have "zip [0 ..< length rs] rs ! i = (i, rs ! i)" "i < length (zip [0 ..< length rs] rs)"
    using assms by simp_all
  then have "(i, rs ! i) \<in> set (zip [0 ..< length rs] rs)"
    by (metis nth_mem)
  then have "set (init_step c pin pout (i, rs ! i)) \<subseteq> set (init_events c pin pout [0 ..< length rs] rs)"
    unfolding init_events_def by auto
  then show ?thesis by (simp add: init_step_def)
qed

lemma mmio_offsets_append [simp]: "mmio_offsets (xs @ ys) = mmio_offsets xs \<union> mmio_offsets ys"
  by (simp add: mmio_offsets_def)

lemma mmio_offsets_Cons [simp]: "mmio_offsets (x # xs) = set (mmio_of x) \<union> mmio_offsets xs"
  by (simp add: mmio_offsets_def)

lemma mmio_offsets_Nil [simp]: "mmio_offsets [] = {}"
  by (simp add: mmio_offsets_def)

lemma mmio_offsets_subset: "mmio_offsets tr \<subseteq> S \<longleftrightarrow> (\<forall>x \<in> set tr. set (mmio_of x) \<subseteq> S)"
  by (auto simp: mmio_offsets_def)

lemma filter_wait_events:
  "filter is_mmio (concat (replicate k (wait_events c))) = replicate k (Afu (Read (MMIO_DONE c)) (Value 0))"
  by (induction k) (simp_all add: wait_events_def)

lemma filter_mmio_events:
  "filter is_mmio (alloc_events c test pin pout) = []"
  "filter is_mmio (init_events c pin pout is rs) = []"
  "filter is_mmio (program_events c pin pout n) = program_events c pin pout n"
  "filter is_mmio (poll_events c k v)
     = replicate k (Afu (Read (MMIO_DONE c)) (Value 0)) @ [Afu (Read (MMIO_DONE c)) (Value v)]"
  "filter is_mmio (compare_events A pin pout is w) = []"
  "filter is_mmio (report_events resets e) = [Afu (Read 0x0060) (Value resets)]"
  "filter is_mmio (release_events pin pout) = []"
  by (auto simp: alloc_events_def program_events_def poll_events_def report_events_def
      release_events_def filter_wait_events filter_empty_conv
      dest!: init_events_kind compare_events_kind elim: is_load.elims)

lemma test_body_kinds:
  "every (\<lambda>x. (\<exists>r. x = Afu (Malloc (unat (DATA_AMOUNT c))) r) \<or> (\<exists>s. x = Cout s)
            \<or> (\<exists>r. x = Rand r) \<or> (\<exists>p i v. x = Store p i v)
            \<or> (\<exists>off v r. x = Afu (Write off v) r \<and>
                  off \<in> {MMIO_RD_ADDR c, MMIO_WR_ADDR c, MMIO_SIZE c, MMIO_GO c})
            \<or> (\<exists>r. x = Afu (Read (MMIO_DONE c)) r) \<or> x = Sleep (SLEEP_MS c)
            \<or> is_load x \<or> (\<exists>r. x = Afu (Read 0x0060) r) \<or> (\<exists>p r. x = Afu (Free p) r))
     (test_body c A test w)"
  unfolding test_body_def split_def
  by (intro every_bind every_mono[OF allocate_kind] every_mono[OF initialize_kind]
        every_mono[OF program_kind] every_mono[OF poll_kind'] every_mono[OF verify_kind]
        every_mono[OF report_kind] every_mono[OF release_kind]) blast+

subsection \<open>The worlds that the phases hand on\<close>

lemma init_rands_Nil [simp]: "init_rands c A input output [] w = []"
  by (simp add: init_rands_def)

lemma init_world_Nil [simp]: "init_world c A input output [] w = w"
  by (simp add: init_world_def)

lemma init_world_Cons [simp]:
  "init_world c A input output (i # is) w
     = init_world c A input output is (init_cell c A input output w i)"
  by (simp add: init_world_def)

lemma init_world_snoc:
  "init_world c A input output (is @ [i]) w
     = init_cell c A input output (init_world c A input output is w) i"
  by (simp add: init_world_def)

lemma init_rands_Cons:
  "init_rands c A input output (i # is) w
     = fst (rand A w) # init_rands c A input output is (init_cell c A input output w i)"
proof -
  have "[0 ..< Suc (length is)] = 0 # map Suc [0 ..< length is]"
    by (simp add: upt_conv_Cons map_Suc_upt del: upt_Suc)
  then show ?thesis
    by (simp add: init_rands_def comp_def del: upt_Suc)
qed

lemma length_init_rands [simp]: "length (init_rands c A input output is w) = length is"
  by (simp add: init_rands_def)

lemma init_rands_nth:
  "i < n \<Longrightarrow> init_rands c A input output [0 ..< n] w ! i
     = fst (rand A (init_world c A input output [0 ..< i] w))"
  by (simp add: init_rands_def take_upt)

lemma init_cell_loads:
  assumes "acts_as_memory A" and "input \<noteq> output"
  shows "load A output n (init_cell c A input output w n) = dma_data_of_int c 0"
    and "load A input n (init_cell c A input output w n) = dma_data_of_int c (fst (rand A w))"
    and "i \<noteq> n \<Longrightarrow> load A p i (init_cell c A input output w n) = load A p i w"
proof -
  from assms(1) have
    same: "\<And>p i v w. load A p i (store A p i v w) = v" and
    other: "\<And>p i q j v w. (q, j) \<noteq> (p, i) \<Longrightarrow> load A p i (store A q j v w) = load A p i w" and
    rnd: "\<And>p i w. load A p i (snd (rand A w)) = load A p i w"
    unfolding acts_as_memory_def by blast+
  show "load A output n (init_cell c A input output w n) = dma_data_of_int c 0"
    by (simp add: init_cell_def same)
  show "load A input n (init_cell c A input output w n) = dma_data_of_int c (fst (rand A w))"
    using assms(2) by (simp add: init_cell_def same other)
  show "load A p i (init_cell c A input output w n) = load A p i w" if "i \<noteq> n"
    using that by (simp add: init_cell_def other rnd)
qed

lemma init_world_loads:
  assumes "acts_as_memory A" and "input \<noteq> output" and "i < n"
  shows "load A output i (init_world c A input output [0 ..< n] w) = dma_data_of_int c 0"
    and "load A input i (init_world c A input output [0 ..< n] w)
           = dma_data_of_int c (init_rands c A input output [0 ..< n] w ! i)"
proof -
  have "load A output i (init_world c A input output [0 ..< n] w) = dma_data_of_int c 0
      \<and> load A input i (init_world c A input output [0 ..< n] w)
           = dma_data_of_int c (fst (rand A (init_world c A input output [0 ..< i] w)))"
    using assms(3)
  proof (induction n)
    case 0
    then show ?case by simp
  next
    case (Suc n)
    let ?W = "init_world c A input output [0 ..< n] w"
    have w: "init_world c A input output [0 ..< Suc n] w = init_cell c A input output ?W n"
      by (simp add: init_world_snoc)
    show ?case
    proof (cases "i = n")
      case True
      then show ?thesis
        unfolding w using init_cell_loads(1,2)[OF assms(1,2)] by simp
    next
      case False
      with Suc.prems have "i < n" by simp
      from Suc.IH[OF this] False show ?thesis
        unfolding w using init_cell_loads(3)[OF assms(1,2)] by simp
    qed
  qed
  then show "load A output i (init_world c A input output [0 ..< n] w) = dma_data_of_int c 0"
    and "load A input i (init_world c A input output [0 ..< n] w)
           = dma_data_of_int c (init_rands c A input output [0 ..< n] w ! i)"
    using assms(3) by (simp_all add: init_rands_nth)
qed

lemma report_eq:
  "report c A errors w =
     (case AFU_read A 0x0060 w of
        Inl e \<Rightarrow> Some (Raise e [Cout ''# of resets: '', Afu (Read 0x0060) (Thrown e)])
      | Inr (resets, w') \<Rightarrow> Some (Ok () w' (report_events resets errors)))"
  by (simp add: report_def afu_read_def cout_def report_events_def failure_line_def
      success_line_def split: sum.splits)


lemma prepend_prepend: "prepend a (prepend b x) = prepend (a @ b) x"
  by (cases x) simp_all

lemma failure_line_in_phases:
  "Cout (failure_line n) \<notin> set (alloc_events c test pin pout)"
  "Cout (failure_line n) \<in> set (report_events resets e :: 'a event list) \<longleftrightarrow> 0 < e \<and> failure_line n = failure_line e"
  using failure_line_neq[of n]
  by (auto simp: cout_in_alloc cout_in_report)

lemma release_no_cout:
  assumes "release A pin pout w = Some res"
  shows "Cout s \<notin> set (trace_of res)"
  using release_kind[of A pin pout w] assms by (auto simp: every_def)

subsection \<open>The simulated accelerator, phase by phase\<close>

lemma sim_acts_as_memory: "acts_as_memory (sim_afu c copies fault)"
  by (auto simp: acts_as_memory_def sim_afu_def)

lemma sim_allocate:
  "allocate test_config (sim_afu test_config copies no_fault) 0 sim_start
     = Some (Ok (0x7f0000, 0x7f1000) (sim_start\<lparr>brk := 0x7f2000, live := [0x7f0000, 0x7f1000]\<rparr>)
         (alloc_events test_config 0 0x7f0000 0x7f1000))"
  by (simp add: run_defs alloc_events_def)


text \<open>The run with the accelerator that copies, phase by phase.\<close>

lemma good_phases:
  "\<exists>w1 w2 w3 w4.
      allocate test_config (sim_afu test_config True no_fault) 0 sim_start
        = Some (Ok (0x7f0000, 0x7f1000) w1 (alloc_events test_config 0 0x7f0000 0x7f1000))
    \<and> initialize test_config (sim_afu test_config True no_fault) 0x7f0000 0x7f1000 w1
        = Some (Ok () w2 (init_events test_config 0x7f0000 0x7f1000 [0, 1] [1, 1103527590]))
    \<and> program test_config (sim_afu test_config True no_fault) 0x7f0000 0x7f1000 w2
        = Some (Ok () w3 (program_events test_config 0x7f0000 0x7f1000 1))
    \<and> poll test_config (sim_afu test_config True no_fault) w3 []
        = Some (Ok () w4 (poll_events test_config 1 1))
    \<and> map (\<lambda>i. load (sim_afu test_config True no_fault) 0x7f0000 i w2) [0, 1] = [1, 1103527590]
    \<and> map (\<lambda>i. load (sim_afu test_config True no_fault) 0x7f1000 i w2) [0, 1] = [0, 0]
    \<and> map (\<lambda>i. load (sim_afu test_config True no_fault) 0x7f0000 i w4) [0, 1] = [1, 1103527590]
    \<and> map (\<lambda>i. load (sim_afu test_config True no_fault) 0x7f1000 i w4) [0, 1] = [1, 1103527590]
    \<and> AFU_read (sim_afu test_config True no_fault) 0x0060 w4 = Inr (0, w4)"
  by (simp add: run_defs alloc_events_def init_events_def init_step_def program_events_def
      poll_events_def wait_events_def)

lemma good_buffers:
  "\<exists>wa w1 w5 wb w'.
      AFU_malloc (sim_afu test_config True no_fault) (unat (DATA_AMOUNT test_config)) sim_start
        = Inr (0x7f0000, wa)
    \<and> AFU_malloc (sim_afu test_config True no_fault) (unat (DATA_AMOUNT test_config)) wa
        = Inr (0x7f1000, w1)
    \<and> bind_res (initialize test_config (sim_afu test_config True no_fault) 0x7f0000 0x7f1000 w1) (\<lambda>_ w.
        bind_res (program test_config (sim_afu test_config True no_fault) 0x7f0000 0x7f1000 w) (\<lambda>_ w.
        bind_res (poll test_config (sim_afu test_config True no_fault) w []) (\<lambda>_ w.
        bind_res (verify test_config (sim_afu test_config True no_fault) 0x7f0000 0x7f1000 w) (\<lambda>errors w.
        report test_config (sim_afu test_config True no_fault) errors w))))
        = Some (Ok () w5 (take 21 (drop 5 good_events)))
    \<and> AFU_free (sim_afu test_config True no_fault) 0x7f0000 w5 = Inr wb
    \<and> AFU_free (sim_afu test_config True no_fault) 0x7f1000 wb = Inr w'
    \<and> [live sim_start, live wa, live w1, live w5, live wb, live w']
        = [[], [0x7f0000], [0x7f0000, 0x7f1000], [0x7f0000, 0x7f1000], [0x7f1000], []]"
  by (simp add: run_defs good_events_def)

lemma sim_init_rands:
  "init_rands test_config (sim_afu test_config copies no_fault) 0x7f0000 0x7f1000 [0 ..< 2]
     (sim_start\<lparr>brk := 0x7f2000, live := [0x7f0000, 0x7f1000]\<rparr>) = [1, 1103527590]"
  by (simp add: init_rands_def init_world_def init_cell_def sim_afu_def sim_start_def upt_rec
      test_config_sel)

section \<open>The claims\<close>

text \<open>
  C1. A failure (an exception of the wrapper, or a mismatch found by the comparison) makes
  \<open>main\<close> stop there and return \<open>EXIT_FAILURE\<close>. The run below has an accelerator that
  reports completion without having copied the buffer: both elements differ, the program
  prints the failure line, then the success line, frees the buffers and returns
  \<open>EXIT_SUCCESS\<close>.
\<close>

theorem mismatch_run_exits_success:
  "main test_config (sim_afu test_config False no_fault) sim_start =
     Some (Exit EXIT_SUCCESS,
       [Afu (New ''5dc2fa52-d3b0-4f1a-a1f4-1c4eb0a2a3b7'') Void,
        Afu (Malloc 2) (Value 0x7f0000), Afu (Malloc 2) (Value 0x7f1000),
        Cout (''7f0000'' @ endl), Cout (''7f1000'' @ endl), Cout (''Test 0...'' @ endl),
        Rand 1, Store 0x7f0000 0 1, Store 0x7f1000 0 0,
        Rand 1103527590, Store 0x7f0000 1 1103527590, Store 0x7f1000 1 0,
        Afu (Write 0x52 0x7f0000) Void, Afu (Write 0x54 0x7f1000) Void,
        Afu (Write 0x56 1) Void, Afu (Write 0x50 1) Void,
        Afu (Read 0x58) (Value 0), Sleep 10, Afu (Read 0x58) (Value 1),
        Load 0x7f1000 0 0, Load 0x7f0000 0 1,
        Load 0x7f1000 1 0, Load 0x7f0000 1 1103527590,
        Cout ''# of resets: '', Afu (Read 0x60) (Value 0), Cout (''0'' @ endl),
        Cout (''FAILURE: DMA Test Failed With 2 errors!!!!'' @ endl),
        Cout (''DMA Test Successful!!!'' @ endl),
        Afu (Free 0x7f0000) Void, Afu (Free 0x7f1000) Void])"
  by (simp add: main_mismatch mismatch_events_def test_config_sel)

text \<open>
  C2. Let an iteration have allocated its buffers, initialised them and programmed the
  accelerator, and let the polling loop have returned, leaving the world \<open>w4\<close>. The
  comparison of lines 98-103 reads both buffers in \<open>w4\<close> and leaves it as it is; it
  returns \<open>errors\<close>, the number of indices below \<open>DATA_AMOUNT\<close> where the output buffer
  differs from the input buffer in \<open>w4\<close>, which is 0 exactly when the two buffers are equal
  there. What the iteration does next hangs on the read of register \<open>0x0060\<close> (line 105) in
  \<open>w4\<close>: if it throws, the iteration ends with that exception and nothing was printed
  about \<open>errors\<close>; if it returns, the report for \<open>errors\<close> follows, then the release of
  the buffers. So the failure line is printed exactly when \<open>errors\<close> is not 0 and that
  read returns.
\<close>

theorem verification_counts_mismatches:
  fixes A :: "('w, 'a) env"
  assumes "allocate c A test w = Some (Ok (input, output) w1 tr1)"
    and "initialize c A input output w1 = Some (Ok u2 w2 tr2)"
    and "program c A input output w2 = Some (Ok u3 w3 tr3)"
    and "poll c A w3 [] = Some (Ok u4 w4 tr4)"
  shows "\<exists>errors res.
           verify c A input output w4
             = Some (Ok errors w4 (compare_events A input output [0 ..< unat (DATA_AMOUNT c)] w4))
         \<and> unat errors = card {i. i < unat (DATA_AMOUNT c) \<and> load A output i w4 \<noteq> load A input i w4}
         \<and> (errors = 0 \<longleftrightarrow> (\<forall>i < unat (DATA_AMOUNT c). load A output i w4 = load A input i w4))
         \<and> test_body c A test w = Some res
         \<and> Some res =
             (case AFU_read A 0x0060 w4 of
                Inl e \<Rightarrow> Some (Raise e (tr1 @ tr2 @ tr3 @ tr4
                    @ compare_events A input output [0 ..< unat (DATA_AMOUNT c)] w4
                    @ [Cout ''# of resets: '', Afu (Read 0x0060) (Thrown e)]))
              | Inr (resets, w5) \<Rightarrow>
                  map_option (prepend (tr1 @ tr2 @ tr3 @ tr4
                    @ compare_events A input output [0 ..< unat (DATA_AMOUNT c)] w4
                    @ report_events resets errors))
                    (release A input output w5))
         \<and> ((\<exists>n. Cout (failure_line n) \<in> set (trace_of res))
              \<longleftrightarrow> 0 < errors \<and> (\<exists>resets w5. AFU_read A 0x0060 w4 = Inr (resets, w5)))
         \<and> (Cout (failure_line errors) \<in> set (trace_of res)
              \<longleftrightarrow> 0 < errors \<and> (\<exists>resets w5. AFU_read A 0x0060 w4 = Inr (resets, w5)))"
proof -
  let ?N = "unat (DATA_AMOUNT c)"
  let ?e = "of_nat (mismatches A input output ?N w4) :: unsigned"
  let ?cmp = "compare_events A input output [0 ..< ?N] w4"
  have card: "unat ?e = card {i. i < ?N \<and> load A output i w4 \<noteq> load A input i w4}"
    unfolding unat_mismatches by (simp add: mismatches_def)
  have "?e = 0 \<longleftrightarrow> unat ?e = 0" by (simp add: unat_eq_0)
  also have "\<dots> \<longleftrightarrow> {i. i < ?N \<and> load A output i w4 \<noteq> load A input i w4} = {}"
    unfolding card by simp
  finally have zero: "?e = 0 \<longleftrightarrow> (\<forall>i < ?N. load A output i w4 = load A input i w4)"
    by auto
  have ver: "verify c A input output w4 = Some (Ok ?e w4 ?cmp)"
    by (rule verify_eq)
  have eq: "test_body c A test w =
     (case AFU_read A 0x0060 w4 of
        Inl e \<Rightarrow> Some (Raise e (tr1 @ tr2 @ tr3 @ tr4 @ ?cmp
            @ [Cout ''# of resets: '', Afu (Read 0x0060) (Thrown e)]))
      | Inr (resets, w5) \<Rightarrow>
          map_option (prepend (tr1 @ tr2 @ tr3 @ tr4 @ ?cmp @ report_events resets ?e))
            (release A input output w5))"
    by (simp add: test_body_def assms verify_eq report_eq option.map_comp comp_def
        prepend_prepend split: sum.splits prod.splits)
  from assms(1) have tr1: "tr1 = alloc_events c test input output"
    by (auto elim!: allocate_cases)
  from assms(2) obtain rs where tr2: "tr2 = init_events c input output [0 ..< ?N] rs"
    by (auto elim!: initialize_cases)
  from assms(3) obtain n where tr3: "tr3 = program_events c input output n"
    by (rule program_Ok)
  from assms(4) obtain k v where tr4: "tr4 = poll_events c k v"
    by (auto elim!: poll_cases)
  have pre: "Cout (failure_line m) \<notin> set (tr1 @ tr2 @ tr3 @ tr4 @ ?cmp)" for m
    unfolding tr1 tr2 tr3 tr4 by (simp add: failure_line_in_phases(1))
  show ?thesis
  proof (cases "AFU_read A 0x0060 w4")
    case (Inl e)
    let ?res = "Raise e (tr1 @ tr2 @ tr3 @ tr4 @ ?cmp
                  @ [Cout ''# of resets: '', Afu (Read 0x0060) (Thrown e)]) :: (unit, 'w, 'a) res"
    from eq Inl have t: "test_body c A test w = Some ?res" by simp
    have none: "Cout (failure_line m) \<notin> set (trace_of ?res)" for m
      using pre[of m] failure_line_neq(3)[of m] by simp
    from ver card zero t Inl none show ?thesis
      by (intro exI[of _ ?e] exI[of _ ?res]) simp
  next
    case (Inr rw)
    obtain resets w5 where rw: "rw = (resets, w5)" by (cases rw)
    have "release A input output w5 \<noteq> None"
      by (auto simp: release_def bind_res_None_iff afu_free_def split: sum.splits)
    then obtain res5 where r5: "release A input output w5 = Some res5" by blast
    let ?res = "prepend (tr1 @ tr2 @ tr3 @ tr4 @ ?cmp @ report_events resets ?e) res5"
    from eq Inr rw r5 have t: "test_body c A test w = Some ?res" by simp
    have tr: "trace_of ?res = (tr1 @ tr2 @ tr3 @ tr4 @ ?cmp) @ report_events resets ?e @ trace_of res5"
      by (simp add: trace_of_prepend)
    have a: "Cout (failure_line ?e) \<in> set (trace_of ?res) \<longleftrightarrow> 0 < ?e"
      unfolding tr using pre[of ?e] release_no_cout[OF r5]
      by (simp add: failure_line_in_phases(2))
    have b: "(\<exists>m. Cout (failure_line m) \<in> set (trace_of ?res)) \<longleftrightarrow> 0 < ?e"
    proof
      assume "\<exists>m. Cout (failure_line m) \<in> set (trace_of ?res)"
      then obtain m where "Cout (failure_line m) \<in> set (trace_of ?res)" ..
      then show "0 < ?e"
        unfolding tr using pre[of m] release_no_cout[OF r5]
        by (simp add: failure_line_in_phases(2))
    next
      assume "0 < ?e"
      with a show "\<exists>m. Cout (failure_line m) \<in> set (trace_of ?res)" by blast
    qed
    from ver card zero t Inr rw r5 a b show ?thesis
      by (intro exI[of _ ?e] exI[of _ ?res]) simp
  qed
qed

text \<open>
  The accelerator that copies: before the go command the two buffers differ at both
  indices, in the world that the polling loop leaves they are equal, and \<open>errors\<close> is 0.
\<close>

theorem verification_counts_mismatches_witness:
  "\<exists>w1 w2 w3 w4.
      allocate test_config (sim_afu test_config True no_fault) 0 sim_start
        = Some (Ok (0x7f0000, 0x7f1000) w1 (alloc_events test_config 0 0x7f0000 0x7f1000))
    \<and> initialize test_config (sim_afu test_config True no_fault) 0x7f0000 0x7f1000 w1
        = Some (Ok () w2 (init_events test_config 0x7f0000 0x7f1000 [0, 1] [1, 1103527590]))
    \<and> program test_config (sim_afu test_config True no_fault) 0x7f0000 0x7f1000 w2
        = Some (Ok () w3 (program_events test_config 0x7f0000 0x7f1000 1))
    \<and> poll test_config (sim_afu test_config True no_fault) w3 []
        = Some (Ok () w4 (poll_events test_config 1 1))
    \<and> map (\<lambda>i. load (sim_afu test_config True no_fault) 0x7f0000 i w2) [0, 1] = [1, 1103527590]
    \<and> map (\<lambda>i. load (sim_afu test_config True no_fault) 0x7f1000 i w2) [0, 1] = [0, 0]
    \<and> map (\<lambda>i. load (sim_afu test_config True no_fault) 0x7f0000 i w4) [0, 1] = [1, 1103527590]
    \<and> map (\<lambda>i. load (sim_afu test_config True no_fault) 0x7f1000 i w4) [0, 1] = [1, 1103527590]
    \<and> AFU_read (sim_afu test_config True no_fault) 0x0060 w4 = Inr (0, w4)
    \<and> (\<exists>errors res.
           verify test_config (sim_afu test_config True no_fault) 0x7f0000 0x7f1000 w4
             = Some (Ok errors w4 (compare_events (sim_afu test_config True no_fault)
                  0x7f0000 0x7f1000 [0 ..< unat (DATA_AMOUNT test_config)] w4))
         \<and> unat errors = card {i. i < unat (DATA_AMOUNT test_config) \<and>
               load (sim_afu test_config True no_fault) 0x7f1000 i w4
                 \<noteq> load (sim_afu test_config True no_fault) 0x7f0000 i w4}
         \<and> (errors = 0 \<longleftrightarrow> (\<forall>i < unat (DATA_AMOUNT test_config).
               load (sim_afu test_config True no_fault) 0x7f1000 i w4
                 = load (sim_afu test_config True no_fault) 0x7f0000 i w4))
         \<and> test_body test_config (sim_afu test_config True no_fault) 0 sim_start = Some res
         \<and> ((\<exists>n. Cout (failure_line n) \<in> set (trace_of res))
              \<longleftrightarrow> 0 < errors \<and> (\<exists>resets w5.
                    AFU_read (sim_afu test_config True no_fault) 0x0060 w4 = Inr (resets, w5)))
         \<and> (Cout (failure_line errors) \<in> set (trace_of res)
              \<longleftrightarrow> 0 < errors \<and> (\<exists>resets w5.
                    AFU_read (sim_afu test_config True no_fault) 0x0060 w4 = Inr (resets, w5)))
         \<and> errors = 0 \<and> trace_of res = good_events)"
proof -
  let ?A = "sim_afu test_config True no_fault"
  from good_phases obtain w1 w2 w3 w4 where
    p1: "allocate test_config ?A 0 sim_start
        = Some (Ok (0x7f0000, 0x7f1000) w1 (alloc_events test_config 0 0x7f0000 0x7f1000))" and
    p2: "initialize test_config ?A 0x7f0000 0x7f1000 w1
        = Some (Ok () w2 (init_events test_config 0x7f0000 0x7f1000 [0, 1] [1, 1103527590]))" and
    p3: "program test_config ?A 0x7f0000 0x7f1000 w2
        = Some (Ok () w3 (program_events test_config 0x7f0000 0x7f1000 1))" and
    p4: "poll test_config ?A w3 [] = Some (Ok () w4 (poll_events test_config 1 1))" and
    l: "map (\<lambda>i. load ?A 0x7f0000 i w2) [0, 1] = [1, 1103527590]"
       "map (\<lambda>i. load ?A 0x7f1000 i w2) [0, 1] = [0, 0]"
       "map (\<lambda>i. load ?A 0x7f0000 i w4) [0, 1] = [1, 1103527590]"
       "map (\<lambda>i. load ?A 0x7f1000 i w4) [0, 1] = [1, 1103527590]" and
    rd: "AFU_read ?A 0x0060 w4 = Inr (0, w4)"
    by (elim exE conjE) (rule that)
  from verification_counts_mismatches[OF p1 p2 p3 p4] obtain errors res where
    c1: "verify test_config ?A 0x7f0000 0x7f1000 w4
             = Some (Ok errors w4 (compare_events ?A
                  0x7f0000 0x7f1000 [0 ..< unat (DATA_AMOUNT test_config)] w4))" and
    c2: "unat errors = card {i. i < unat (DATA_AMOUNT test_config) \<and>
               load ?A 0x7f1000 i w4 \<noteq> load ?A 0x7f0000 i w4}" and
    c3: "errors = 0 \<longleftrightarrow> (\<forall>i < unat (DATA_AMOUNT test_config).
               load ?A 0x7f1000 i w4 = load ?A 0x7f0000 i w4)" and
    c4: "test_body test_config ?A 0 sim_start = Some res" and
    c5: "(\<exists>n. Cout (failure_line n) \<in> set (trace_of res))
              \<longleftrightarrow> 0 < errors \<and> (\<exists>resets w5. AFU_read ?A 0x0060 w4 = Inr (resets, w5))" and
    c6: "Cout (failure_line errors) \<in> set (trace_of res)
              \<longleftrightarrow> 0 < errors \<and> (\<exists>resets w5. AFU_read ?A 0x0060 w4 = Inr (resets, w5))"
    by (elim exE conjE) (rule that)
  have N: "unat (DATA_AMOUNT test_config) = 2" by (simp add: test_config_sel)
  have "load ?A 0x7f1000 i w4 = load ?A 0x7f0000 i w4" if "i < 2" for i
  proof -
    from that have "i = 0 \<or> i = 1" by auto
    with l(3,4) show ?thesis by auto
  qed
  with c3 N have e0: "errors = 0" by simp
  have "\<exists>w'. test_body test_config ?A 0 sim_start = Some (Ok () w' good_events)"
    by (simp add: run_defs good_events_def)
  with c4 have tr: "trace_of res = good_events" by auto
  show ?thesis
    apply (rule exI[of _ w1], rule exI[of _ w2], rule exI[of _ w3], rule exI[of _ w4])
    apply (intro conjI p1 p2 p3 p4 l rd)
    apply (rule exI[of _ errors], rule exI[of _ res])
    apply (intro conjI c1 c2 c3 c4 c5 c6 e0 tr)
    done
qed

text \<open>
  Without the condition on line 105 the equivalence fails. The accelerator below reports
  completion without having copied, and its read of register \<open>0x0060\<close> throws: the
  comparison counts 2 mismatches, no failure line is printed, and \<open>main\<close> ends in its
  handler.
\<close>

theorem failure_not_reported_counterexample:
  "\<exists>w1 w2 w3 w4 tr.
      allocate test_config (sim_afu test_config False (fault_on (Read 0x0060) (Fpga_result FPGA_EXCEPTION))) 0 sim_start
        = Some (Ok (0x7f0000, 0x7f1000) w1
            [Afu (Malloc 2) (Value 0x7f0000), Afu (Malloc 2) (Value 0x7f1000),
             Cout (''7f0000'' @ endl), Cout (''7f1000'' @ endl), Cout (''Test 0...'' @ endl)])
    \<and> initialize test_config (sim_afu test_config False (fault_on (Read 0x0060) (Fpga_result FPGA_EXCEPTION))) 0x7f0000 0x7f1000 w1
        = Some (Ok () w2
            [Rand 1, Store 0x7f0000 0 1, Store 0x7f1000 0 0,
             Rand 1103527590, Store 0x7f0000 1 1103527590, Store 0x7f1000 1 0])
    \<and> program test_config (sim_afu test_config False (fault_on (Read 0x0060) (Fpga_result FPGA_EXCEPTION))) 0x7f0000 0x7f1000 w2
        = Some (Ok () w3
            [Afu (Write 0x52 0x7f0000) Void, Afu (Write 0x54 0x7f1000) Void,
             Afu (Write 0x56 1) Void, Afu (Write 0x50 1) Void])
    \<and> poll test_config (sim_afu test_config False (fault_on (Read 0x0060) (Fpga_result FPGA_EXCEPTION))) w3 []
        = Some (Ok () w4 [Afu (Read 0x58) (Value 0), Sleep 10, Afu (Read 0x58) (Value 1)])
    \<and> verify test_config (sim_afu test_config False (fault_on (Read 0x0060) (Fpga_result FPGA_EXCEPTION))) 0x7f0000 0x7f1000 w4
        = Some (Ok 2 w4
            [Load 0x7f1000 0 0, Load 0x7f0000 0 1,
             Load 0x7f1000 1 0, Load 0x7f0000 1 1103527590])
    \<and> main test_config (sim_afu test_config False (fault_on (Read 0x0060) (Fpga_result FPGA_EXCEPTION))) sim_start
        = Some (Exit EXIT_FAILURE, tr)
    \<and> tr = [Afu (New ''5dc2fa52-d3b0-4f1a-a1f4-1c4eb0a2a3b7'') Void,
             Afu (Malloc 2) (Value 0x7f0000), Afu (Malloc 2) (Value 0x7f1000),
             Cout (''7f0000'' @ endl), Cout (''7f1000'' @ endl), Cout (''Test 0...'' @ endl),
             Rand 1, Store 0x7f0000 0 1, Store 0x7f1000 0 0,
             Rand 1103527590, Store 0x7f0000 1 1103527590, Store 0x7f1000 1 0,
             Afu (Write 0x52 0x7f0000) Void, Afu (Write 0x54 0x7f1000) Void,
             Afu (Write 0x56 1) Void, Afu (Write 0x50 1) Void,
             Afu (Read 0x58) (Value 0), Sleep 10, Afu (Read 0x58) (Value 1),
             Load 0x7f1000 0 0, Load 0x7f0000 0 1,
             Load 0x7f1000 1 0, Load 0x7f0000 1 1103527590,
             Cout ''# of resets: '',
             Afu (Read 0x60) (Thrown (Fpga_result FPGA_EXCEPTION)),
             Cerr (''ERROR: exception'' @ endl)]
    \<and> (\<forall>n. Cout (failure_line n) \<notin> set tr)"
  by (simp add: main_def try_block_eq run_defs count_errors.simps failure_line_def)

text \<open>
  C3. The events of an iteration that completes are, in this order and with nothing else:
  the two allocations (and three lines of output), the initialisation of the buffers, the
  four register writes, the polls, the reads of the comparison, the report, and the two
  calls of \<open>free\<close>.
\<close>

theorem iteration_phases_in_order:
  assumes "test_body c A test w = Some (Ok u w' tr)"
  shows "\<exists>input output rs n k v w2 resets errors.
           length rs = unat (DATA_AMOUNT c) \<and> v \<noteq> 0 \<and>
           tr = alloc_events c test input output
                @ init_events c input output [0 ..< unat (DATA_AMOUNT c)] rs
                @ program_events c input output n
                @ poll_events c k v
                @ compare_events A input output [0 ..< unat (DATA_AMOUNT c)] w2
                @ report_events resets errors
                @ release_events input output"
  using assms by (cases rule: test_body_Ok) blast

theorem iteration_phases_in_order_witness:
  "\<exists>w'. test_body test_config (sim_afu test_config True no_fault) 0 sim_start
           = Some (Ok () w' good_events)
       \<and> (\<exists>input output rs n k v w2 resets errors.
           length rs = unat (DATA_AMOUNT test_config) \<and> v \<noteq> 0 \<and>
           good_events = alloc_events test_config 0 input output
                @ init_events test_config input output [0 ..< unat (DATA_AMOUNT test_config)] rs
                @ program_events test_config input output n
                @ poll_events test_config k v
                @ compare_events (sim_afu test_config True no_fault) input output
                    [0 ..< unat (DATA_AMOUNT test_config)] w2
                @ report_events resets errors
                @ release_events input output)"
proof -
  from good_iteration obtain w' where
    r: "test_body test_config (sim_afu test_config True no_fault) 0 sim_start
          = Some (Ok () w' good_events)" ..
  from iteration_phases_in_order[OF r] r show ?thesis by blast
qed

text \<open>
  C7. An iteration that completes begins with two calls of the wrapper's \<open>malloc\<close>, each
  for \<open>DATA_AMOUNT\<close> elements, the second in the world that the first returned; the phases
  from the initialisation to the report run from the world of the second allocation to a
  world \<open>w5\<close> and call neither \<open>malloc\<close> nor \<open>free\<close>; the iteration ends with the
  wrapper's \<open>free\<close> applied to the first pointer in \<open>w5\<close> and to the second pointer in
  the world that this returned, and the world that the iteration returns is the one that
  the second \<open>free\<close> returned.
\<close>

theorem buffers_allocated_and_freed:
  assumes "test_body c A test w = Some (Ok u w' tr)"
  shows "\<exists>input output wa w1 w5 wb mid.
           AFU_malloc A (unat (DATA_AMOUNT c)) w = Inr (input, wa)
         \<and> AFU_malloc A (unat (DATA_AMOUNT c)) wa = Inr (output, w1)
         \<and> bind_res (initialize c A input output w1) (\<lambda>_ w.
             bind_res (program c A input output w) (\<lambda>_ w.
             bind_res (poll c A w []) (\<lambda>_ w.
             bind_res (verify c A input output w) (\<lambda>errors w.
             report c A errors w)))) = Some (Ok () w5 (drop 3 mid))
         \<and> AFU_free A input w5 = Inr wb
         \<and> AFU_free A output wb = Inr w'
         \<and> tr = [Afu (Malloc (unat (DATA_AMOUNT c))) (Value input),
                 Afu (Malloc (unat (DATA_AMOUNT c))) (Value output)]
                @ mid @ [Afu (Free input) Void, Afu (Free output) Void]
         \<and> take 3 mid = [Cout (hex (unat input) @ endl), Cout (hex (unat output) @ endl),
                          Cout (''Test '' @ hex test @ ''...'' @ endl)]
         \<and> (\<forall>x \<in> set mid. \<not> is_buffer_call x)"
proof -
  let ?N = "unat (DATA_AMOUNT c)"
  from assms[unfolded test_body_def] obtain io w1 tr1 trA where
    1: "allocate c A test w = Some (Ok io w1 tr1)" and
    A: "(case io of (input, output) \<Rightarrow> \<lambda>w.
           bind_res (initialize c A input output w) (\<lambda>_ w.
           bind_res (program c A input output w) (\<lambda>_ w.
           bind_res (poll c A w []) (\<lambda>_ w.
           bind_res (verify c A input output w) (\<lambda>errors w.
           bind_res (report c A errors w) (\<lambda>_ w.
           release A input output w)))))) w1 = Some (Ok u w' trA)" and
    t1: "tr = tr1 @ trA"
    by (rule bind_res_OkE)
  obtain pin pout where io: "io = (pin, pout)" by (cases io)
  let ?couts = "[Cout (hex (unat pin) @ endl), Cout (hex (unat pout) @ endl),
               Cout (''Test '' @ hex test @ ''...'' @ endl)]"
  from 1 io have "\<exists>wa. AFU_malloc A ?N w = Inr (pin, wa) \<and> AFU_malloc A ?N wa = Inr (pout, w1)"
    by (auto simp: allocate_def afu_malloc_def cout_def bind_res_def split: sum.splits)
  then obtain wa where m: "AFU_malloc A ?N w = Inr (pin, wa)" "AFU_malloc A ?N wa = Inr (pout, w1)"
    by blast
  from 1 io have tr1: "tr1 = [Afu (Malloc ?N) (Value pin), Afu (Malloc ?N) (Value pout)] @ ?couts"
    by (auto simp: alloc_events_def elim!: allocate_cases)
  from A io have "bind_res (initialize c A pin pout w1) (\<lambda>_ w.
           bind_res (program c A pin pout w) (\<lambda>_ w.
           bind_res (poll c A w []) (\<lambda>_ w.
           bind_res (verify c A pin pout w) (\<lambda>errors w.
           bind_res (report c A errors w) (\<lambda>_ w.
           release A pin pout w))))) = Some (Ok u w' trA)"
    by simp
  then obtain u2 w2 tr2 trB where
    2: "initialize c A pin pout w1 = Some (Ok u2 w2 tr2)" and
    B: "bind_res (program c A pin pout w2) (\<lambda>_ w.
           bind_res (poll c A w []) (\<lambda>_ w.
           bind_res (verify c A pin pout w) (\<lambda>errors w.
           bind_res (report c A errors w) (\<lambda>_ w.
           release A pin pout w)))) = Some (Ok u w' trB)" and
    t2: "trA = tr2 @ trB"
    by (rule bind_res_OkE)
  from B obtain u3 w3 tr3 trC where
    3: "program c A pin pout w2 = Some (Ok u3 w3 tr3)" and
    C: "bind_res (poll c A w3 []) (\<lambda>_ w.
           bind_res (verify c A pin pout w) (\<lambda>errors w.
           bind_res (report c A errors w) (\<lambda>_ w.
           release A pin pout w))) = Some (Ok u w' trC)" and
    t3: "trB = tr3 @ trC"
    by (rule bind_res_OkE)
  from C obtain u4 w4 tr4 trD where
    4: "poll c A w3 [] = Some (Ok u4 w4 tr4)" and
    D: "bind_res (verify c A pin pout w4) (\<lambda>errors w.
           bind_res (report c A errors w) (\<lambda>_ w.
           release A pin pout w)) = Some (Ok u w' trD)" and
    t4: "trC = tr4 @ trD"
    by (rule bind_res_OkE)
  from D obtain e5 v5 tr5 trE where
    5: "verify c A pin pout w4 = Some (Ok e5 v5 tr5)" and
    E: "bind_res (report c A e5 v5) (\<lambda>_ w. release A pin pout w) = Some (Ok u w' trE)" and
    t5: "trD = tr5 @ trE"
    by (rule bind_res_OkE)
  from E obtain u6 w5 tr6 tr7 where
    6: "report c A e5 v5 = Some (Ok u6 w5 tr6)" and
    7: "release A pin pout w5 = Some (Ok u w' tr7)" and
    t6: "trE = tr6 @ tr7"
    by (rule bind_res_OkE)
  from 7 have "\<exists>wb. AFU_free A pin w5 = Inr wb \<and> AFU_free A pout wb = Inr w'"
    by (auto simp: release_def afu_free_def bind_res_def split: sum.splits)
  then obtain wb where f: "AFU_free A pin w5 = Inr wb" "AFU_free A pout wb = Inr w'"
    by blast
  from 7 have tr7: "tr7 = [Afu (Free pin) Void, Afu (Free pout) Void]"
    by (auto simp: release_def afu_free_def bind_res_def split: sum.splits)
  let ?rest = "tr2 @ tr3 @ tr4 @ tr5 @ tr6"
  have run: "bind_res (initialize c A pin pout w1) (\<lambda>_ w.
             bind_res (program c A pin pout w) (\<lambda>_ w.
             bind_res (poll c A w []) (\<lambda>_ w.
             bind_res (verify c A pin pout w) (\<lambda>errors w.
             report c A errors w)))) = Some (Ok () w5 ?rest)"
    using 2 3 4 5 6 by simp
  from 2 obtain rs where tr2: "tr2 = init_events c pin pout [0 ..< ?N] rs"
    by (auto elim!: initialize_cases)
  from 3 obtain n where tr3: "tr3 = program_events c pin pout n"
    by (rule program_Ok)
  from 4 obtain k v where tr4: "tr4 = poll_events c k v"
    by (auto elim!: poll_cases)
  from 5 have tr5: "tr5 = compare_events A pin pout [0 ..< ?N] w4"
    by (auto simp: verify_eq)
  from 6 obtain resets where tr6: "tr6 = report_events resets e5"
    by (rule report_Ok)
  have tr: "tr = [Afu (Malloc ?N) (Value pin), Afu (Malloc ?N) (Value pout)] @ (?couts @ ?rest)
             @ [Afu (Free pin) Void, Afu (Free pout) Void]"
    by (simp add: t1 t2 t3 t4 t5 t6 tr1 tr7)
  have quiet: "\<forall>x \<in> set (?couts @ ?rest). \<not> is_buffer_call x"
    unfolding tr2 tr3 tr4 tr5 tr6
    using buffer_calls_in_events(1)[of c pin pout "[0 ..< ?N]" rs]
      buffer_calls_in_events(2)[of c pin pout n] buffer_calls_in_events(3)[of c k v]
      buffer_calls_in_events(4)[of A pin pout "[0 ..< ?N]" w4]
      buffer_calls_in_events(5)[of resets e5]
    by auto
  show ?thesis
    apply (rule exI[of _ pin], rule exI[of _ pout], rule exI[of _ wa], rule exI[of _ w1],
        rule exI[of _ w5], rule exI[of _ wb], rule exI[of _ "?couts @ ?rest"])
    using m f run tr quiet by simp
qed

text \<open>
  The simulated accelerator keeps the list of the buffers that are allocated: it is empty
  before the iteration, holds both buffers from the second allocation to the report, and
  is empty again in the world that the iteration returns.
\<close>

theorem buffers_allocated_and_freed_witness:
  "\<exists>wa w1 w5 wb w' mid.
      test_body test_config (sim_afu test_config True no_fault) 0 sim_start
        = Some (Ok () w' good_events)
    \<and> AFU_malloc (sim_afu test_config True no_fault) (unat (DATA_AMOUNT test_config)) sim_start
        = Inr (0x7f0000, wa)
    \<and> AFU_malloc (sim_afu test_config True no_fault) (unat (DATA_AMOUNT test_config)) wa
        = Inr (0x7f1000, w1)
    \<and> bind_res (initialize test_config (sim_afu test_config True no_fault) 0x7f0000 0x7f1000 w1) (\<lambda>_ w.
        bind_res (program test_config (sim_afu test_config True no_fault) 0x7f0000 0x7f1000 w) (\<lambda>_ w.
        bind_res (poll test_config (sim_afu test_config True no_fault) w []) (\<lambda>_ w.
        bind_res (verify test_config (sim_afu test_config True no_fault) 0x7f0000 0x7f1000 w) (\<lambda>errors w.
        report test_config (sim_afu test_config True no_fault) errors w))))
        = Some (Ok () w5 (drop 3 mid))
    \<and> AFU_free (sim_afu test_config True no_fault) 0x7f0000 w5 = Inr wb
    \<and> AFU_free (sim_afu test_config True no_fault) 0x7f1000 wb = Inr w'
    \<and> good_events = [Afu (Malloc (unat (DATA_AMOUNT test_config))) (Value 0x7f0000),
                      Afu (Malloc (unat (DATA_AMOUNT test_config))) (Value 0x7f1000)]
                     @ mid @ [Afu (Free 0x7f0000) Void, Afu (Free 0x7f1000) Void]
    \<and> take 3 mid = [Cout (hex (unat (0x7f0000 :: u64)) @ endl),
                     Cout (hex (unat (0x7f1000 :: u64)) @ endl),
                     Cout (''Test '' @ hex 0 @ ''...'' @ endl)]
    \<and> filter is_buffer_call mid = []
    \<and> [live sim_start, live wa, live w1, live w5, live wb, live w']
        = [[], [0x7f0000], [0x7f0000, 0x7f1000], [0x7f0000, 0x7f1000], [0x7f1000], []]"
proof -
  let ?A = "sim_afu test_config True no_fault"
  let ?N = "unat (DATA_AMOUNT test_config)"
  have "\<exists>w'. test_body test_config ?A 0 sim_start = Some (Ok () w' good_events)
          \<and> live w' = []"
    by (simp add: run_defs good_events_def)
  then obtain w' where
    r: "test_body test_config ?A 0 sim_start = Some (Ok () w' good_events)" and
    fin: "live w' = []"
    by blast
  from buffers_allocated_and_freed[OF r] obtain pin pout wa w1 w5 wb mid where
    t1: "AFU_malloc ?A ?N sim_start = Inr (pin, wa)" and
    t2: "AFU_malloc ?A ?N wa = Inr (pout, w1)" and
    t3: "bind_res (initialize test_config ?A pin pout w1) (\<lambda>_ w.
        bind_res (program test_config ?A pin pout w) (\<lambda>_ w.
        bind_res (poll test_config ?A w []) (\<lambda>_ w.
        bind_res (verify test_config ?A pin pout w) (\<lambda>errors w.
        report test_config ?A errors w)))) = Some (Ok () w5 (drop 3 mid))" and
    t4: "AFU_free ?A pin w5 = Inr wb" and
    t5: "AFU_free ?A pout wb = Inr w'" and
    t6: "good_events = [Afu (Malloc ?N) (Value pin), Afu (Malloc ?N) (Value pout)]
                     @ mid @ [Afu (Free pin) Void, Afu (Free pout) Void]" and
    t7: "take 3 mid = [Cout (hex (unat pin) @ endl), Cout (hex (unat pout) @ endl),
                     Cout (''Test '' @ hex 0 @ ''...'' @ endl)]" and
    t8: "\<forall>x \<in> set mid. \<not> is_buffer_call x"
    by (elim exE conjE) (rule that)
  from good_buffers obtain wa0 w10 w50 wb0 w0 where
    e1: "AFU_malloc ?A ?N sim_start = Inr (0x7f0000, wa0)" and
    e2: "AFU_malloc ?A ?N wa0 = Inr (0x7f1000, w10)" and
    e3: "bind_res (initialize test_config ?A 0x7f0000 0x7f1000 w10) (\<lambda>_ w.
        bind_res (program test_config ?A 0x7f0000 0x7f1000 w) (\<lambda>_ w.
        bind_res (poll test_config ?A w []) (\<lambda>_ w.
        bind_res (verify test_config ?A 0x7f0000 0x7f1000 w) (\<lambda>errors w.
        report test_config ?A errors w)))) = Some (Ok () w50 (take 21 (drop 5 good_events)))" and
    e4: "AFU_free ?A 0x7f0000 w50 = Inr wb0" and
    e5: "AFU_free ?A 0x7f1000 wb0 = Inr w0" and
    e6: "[live sim_start, live wa0, live w10, live w50, live wb0, live w0]
        = [[], [0x7f0000], [0x7f0000, 0x7f1000], [0x7f0000, 0x7f1000], [0x7f1000], []]"
    by (elim exE conjE) (rule that)
  from t1 e1 have a: "pin = 0x7f0000" "wa0 = wa" by simp_all
  from t2 e2 a have b: "pout = 0x7f1000" "w10 = w1" by simp_all
  from t3 e3 a b have c: "w50 = w5" by simp
  from t4 e4 a c have d: "wb0 = wb" by simp
  from t5 e5 b d have e: "w0 = w'" by simp
  from t8 have q: "filter is_buffer_call mid = []" by (simp add: filter_empty_conv)
  show ?thesis
    apply (rule exI[of _ wa], rule exI[of _ w1], rule exI[of _ w5], rule exI[of _ wb],
        rule exI[of _ w'], rule exI[of _ mid])
    apply (intro conjI r t1[unfolded a] t2[unfolded b] t3[unfolded a b] t4[unfolded a]
        t5[unfolded b] t6[unfolded a b] t7[unfolded a b] q e6[unfolded a b c d e])
    done
qed

text \<open>
  C10. Whatever becomes of an iteration, each of its register writes (the go command among
  them) comes after the two allocations and the whole initialisation, and the writes start
  from the world \<open>w2\<close> that the initialisation returned. In \<open>w2\<close> every index below
  \<open>DATA_AMOUNT\<close> has had, in turn, a call of \<open>rand\<close>, the store of its value, converted,
  into the input buffer and the store of 0 into the output buffer. Where the environment's
  \<open>load\<close> and \<open>store\<close> act as a memory that \<open>rand\<close> leaves alone, and the two pointers
  differ, this means that in \<open>w2\<close> every element of the output buffer is 0 and every
  element of the input buffer is the converted value of its call of \<open>rand\<close>.
\<close>

theorem go_after_initialization:
  assumes "test_body c A test w = Some res"
    and "trace_of res = pre @ Afu (Write off v) r # post"
  shows "\<exists>input output w1 w2 rs res3 pre'.
           allocate c A test w = Some (Ok (input, output) w1 (alloc_events c test input output))
         \<and> rs = init_rands c A input output [0 ..< unat (DATA_AMOUNT c)] w1
         \<and> w2 = init_world c A input output [0 ..< unat (DATA_AMOUNT c)] w1
         \<and> length rs = unat (DATA_AMOUNT c)
         \<and> initialize c A input output w1
             = Some (Ok () w2 (init_events c input output [0 ..< unat (DATA_AMOUNT c)] rs))
         \<and> (acts_as_memory A \<and> input \<noteq> output \<longrightarrow>
              (\<forall>i < unat (DATA_AMOUNT c).
                 load A output i w2 = dma_data_of_int c 0 \<and>
                 load A input i w2 = dma_data_of_int c (rs ! i)))
         \<and> bind_res (program c A input output w2) (\<lambda>_ w.
             bind_res (poll c A w []) (\<lambda>_ w.
             bind_res (verify c A input output w) (\<lambda>errors w.
             bind_res (report c A errors w) (\<lambda>_ w.
             release A input output w)))) = Some res3
         \<and> trace_of res = alloc_events c test input output
             @ init_events c input output [0 ..< unat (DATA_AMOUNT c)] rs @ trace_of res3
         \<and> pre = alloc_events c test input output
             @ init_events c input output [0 ..< unat (DATA_AMOUNT c)] rs @ pre'
         \<and> (\<forall>i < unat (DATA_AMOUNT c).
              Rand (rs ! i) \<in> set pre \<and>
              Store input i (dma_data_of_int c (rs ! i)) \<in> set pre \<and>
              Store output i (dma_data_of_int c 0) \<in> set pre)"
  using assms(1) unfolding test_body_def
proof (cases rule: bind_res_cases)
  case (raise e tr)
  from raise(1) have "\<forall>x \<in> set tr. \<exists>r. x = Afu (Malloc (unat (DATA_AMOUNT c))) r"
    by (auto elim!: allocate_cases)
  with raise(2) assms(2) show ?thesis by fastforce
next
  case (undef tr)
  then show ?thesis by (auto elim!: allocate_cases)
next
  case (ok io w1 tr1 res2)
  obtain pin pout where io: "io = (pin, pout)" by (cases io)
  from ok(1) io have tr1: "tr1 = alloc_events c test pin pout"
    by (auto elim!: allocate_cases)
  let ?N = "unat (DATA_AMOUNT c)"
  let ?rs = "init_rands c A pin pout [0 ..< ?N] w1"
  let ?w2 = "init_world c A pin pout [0 ..< ?N] w1"
  let ?xs = "alloc_events c test pin pout @ init_events c pin pout [0 ..< ?N] ?rs"
  let ?f = "\<lambda>w. bind_res (program c A pin pout w) (\<lambda>_ w.
           bind_res (poll c A w []) (\<lambda>_ w.
           bind_res (verify c A pin pout w) (\<lambda>errors w.
           bind_res (report c A errors w) (\<lambda>_ w.
           release A pin pout w))))"
  have il: "init_loop c A pin pout js u =
      (init_world c A pin pout js u, init_events c pin pout js (init_rands c A pin pout js u))"
    for js u
  proof (induction js arbitrary: u)
    case Nil
    show ?case by (simp add: init_events_def)
  next
    case (Cons j js)
    obtain x u1 where x: "rand A u = (x, u1)" by (cases "rand A u")
    then have cell: "init_cell c A pin pout u j
        = store A pout j (dma_data_of_int c 0) (store A pin j (dma_data_of_int c x) u1)"
      by (simp add: init_cell_def)
    show ?case
      using x Cons[of "init_cell c A pin pout u j"]
      by (simp add: init_rands_Cons cell[symmetric] init_events_def init_step_def)
  qed
  have ini: "initialize c A pin pout w1
      = Some (Ok () ?w2 (init_events c pin pout [0 ..< ?N] ?rs))"
    by (simp add: initialize_def il)
  from ok(2) io have "map_option (prepend (init_events c pin pout [0 ..< ?N] ?rs)) (?f ?w2)
      = Some res2"
    by (simp add: ini)
  then obtain res3 where 3: "?f ?w2 = Some res3"
    and r2: "res2 = prepend (init_events c pin pout [0 ..< ?N] ?rs) res3"
    by (cases "?f ?w2") auto
  have tr: "trace_of res = ?xs @ trace_of res3"
    by (simp add: ok(3) r2 tr1)
  have len: "length ?rs = ?N" by simp
  have no_write: "\<forall>x \<in> set ?xs. \<not> is_write x"
    by (auto dest!: alloc_events_kind init_events_kind)
  from tr assms(2) have "?xs @ trace_of res3 = pre @ Afu (Write off v) r # post"
    by simp
  moreover have "is_write (Afu (Write off v) r)" by simp
  ultimately obtain ls where ls: "pre = ?xs @ ls"
    using no_write by (rule split_after_prefix[where P = is_write])
  have ev: "\<forall>i < ?N. Rand (?rs ! i) \<in> set pre \<and>
              Store pin i (dma_data_of_int c (?rs ! i)) \<in> set pre \<and>
              Store pout i (dma_data_of_int c 0) \<in> set pre"
  proof (intro allI impI)
    fix i assume "i < ?N"
    with len init_events_nth[of i ?rs pin c pout]
    show "Rand (?rs ! i) \<in> set pre \<and>
              Store pin i (dma_data_of_int c (?rs ! i)) \<in> set pre \<and>
              Store pout i (dma_data_of_int c 0) \<in> set pre"
      unfolding ls by auto
  qed
  have mem: "acts_as_memory A \<and> pin \<noteq> pout \<longrightarrow>
              (\<forall>i < ?N. load A pout i ?w2 = dma_data_of_int c 0 \<and>
                 load A pin i ?w2 = dma_data_of_int c (?rs ! i))"
    using init_world_loads[of A pin pout _ ?N c w1] by blast
  have al: "allocate c A test w = Some (Ok (pin, pout) w1 (alloc_events c test pin pout))"
    using ok(1) io tr1 by simp
  show ?thesis
    apply (rule exI[of _ pin], rule exI[of _ pout], rule exI[of _ w1], rule exI[of _ ?w2],
        rule exI[of _ ?rs], rule exI[of _ res3], rule exI[of _ ls])
    apply (intro conjI)
    using al 3 tr len ls ev mem ini by simp_all
qed

text \<open>
  The simulated memory holds \<open>0xdeadbeef\<close> everywhere before the iteration; when the
  registers are written the output buffer holds 0 and the input buffer the two values of
  \<open>rand\<close>.
\<close>

theorem go_after_initialization_witness:
  "\<exists>w' w1 w2 res3 pre'.
      test_body test_config (sim_afu test_config True no_fault) 0 sim_start
        = Some (Ok () w' good_events)
    \<and> trace_of (Ok () w' good_events)
        = take 14 good_events @ Afu (Write (MMIO_GO test_config) 1) Void # drop 15 good_events
    \<and> acts_as_memory (sim_afu test_config True no_fault)
    \<and> map (\<lambda>i. load (sim_afu test_config True no_fault) 0x7f0000 i sim_start) [0, 1]
        = [0xdeadbeef, 0xdeadbeef]
    \<and> map (\<lambda>i. load (sim_afu test_config True no_fault) 0x7f1000 i sim_start) [0, 1]
        = [0xdeadbeef, 0xdeadbeef]
    \<and> allocate test_config (sim_afu test_config True no_fault) 0 sim_start
        = Some (Ok (0x7f0000, 0x7f1000) w1 (alloc_events test_config 0 0x7f0000 0x7f1000))
    \<and> init_rands test_config (sim_afu test_config True no_fault) 0x7f0000 0x7f1000
          [0 ..< unat (DATA_AMOUNT test_config)] w1 = [1, 1103527590]
    \<and> w2 = init_world test_config (sim_afu test_config True no_fault) 0x7f0000 0x7f1000
          [0 ..< unat (DATA_AMOUNT test_config)] w1
    \<and> initialize test_config (sim_afu test_config True no_fault) 0x7f0000 0x7f1000 w1
        = Some (Ok () w2 (init_events test_config 0x7f0000 0x7f1000
             [0 ..< unat (DATA_AMOUNT test_config)] [1, 1103527590]))
    \<and> map (\<lambda>i. load (sim_afu test_config True no_fault) 0x7f0000 i w2) [0, 1] = [1, 1103527590]
    \<and> map (\<lambda>i. load (sim_afu test_config True no_fault) 0x7f1000 i w2) [0, 1] = [0, 0]
    \<and> bind_res (program test_config (sim_afu test_config True no_fault) 0x7f0000 0x7f1000 w2) (\<lambda>_ w.
        bind_res (poll test_config (sim_afu test_config True no_fault) w []) (\<lambda>_ w.
        bind_res (verify test_config (sim_afu test_config True no_fault) 0x7f0000 0x7f1000 w) (\<lambda>errors w.
        bind_res (report test_config (sim_afu test_config True no_fault) errors w) (\<lambda>_ w.
        release (sim_afu test_config True no_fault) 0x7f0000 0x7f1000 w)))) = Some res3
    \<and> good_events = alloc_events test_config 0 0x7f0000 0x7f1000
        @ init_events test_config 0x7f0000 0x7f1000 [0 ..< unat (DATA_AMOUNT test_config)]
            [1, 1103527590]
        @ trace_of res3
    \<and> take 14 good_events = alloc_events test_config 0 0x7f0000 0x7f1000
        @ init_events test_config 0x7f0000 0x7f1000 [0 ..< unat (DATA_AMOUNT test_config)]
            [1, 1103527590]
        @ pre'
    \<and> (\<forall>i < unat (DATA_AMOUNT test_config).
          Rand ([1, 1103527590] ! i) \<in> set (take 14 good_events) \<and>
          Store 0x7f0000 i (dma_data_of_int test_config ([1, 1103527590] ! i))
            \<in> set (take 14 good_events) \<and>
          Store 0x7f1000 i (dma_data_of_int test_config 0) \<in> set (take 14 good_events))"
proof -
  let ?A = "sim_afu test_config True no_fault"
  let ?N = "unat (DATA_AMOUNT test_config)"
  from good_iteration obtain w' where
    r: "test_body test_config ?A 0 sim_start = Some (Ok () w' good_events)" ..
  have s: "trace_of (Ok () w' good_events)
           = take 14 good_events @ Afu (Write (MMIO_GO test_config) 1) Void # drop 15 good_events"
    by (simp add: good_events_def test_config_sel)
  from go_after_initialization[OF r s] obtain pin pout w1 w2 rs res3 pre' where
    t1: "allocate test_config ?A 0 sim_start
           = Some (Ok (pin, pout) w1 (alloc_events test_config 0 pin pout))" and
    t2: "rs = init_rands test_config ?A pin pout [0 ..< ?N] w1" and
    t3: "w2 = init_world test_config ?A pin pout [0 ..< ?N] w1" and
    t4: "length rs = ?N" and
    t5: "initialize test_config ?A pin pout w1
           = Some (Ok () w2 (init_events test_config pin pout [0 ..< ?N] rs))" and
    t6: "acts_as_memory ?A \<and> pin \<noteq> pout \<longrightarrow>
           (\<forall>i < ?N. load ?A pout i w2 = dma_data_of_int test_config 0 \<and>
                     load ?A pin i w2 = dma_data_of_int test_config (rs ! i))" and
    t7: "bind_res (program test_config ?A pin pout w2) (\<lambda>_ w.
        bind_res (poll test_config ?A w []) (\<lambda>_ w.
        bind_res (verify test_config ?A pin pout w) (\<lambda>errors w.
        bind_res (report test_config ?A errors w) (\<lambda>_ w.
        release ?A pin pout w)))) = Some res3" and
    t8: "trace_of (Ok () w' good_events) = alloc_events test_config 0 pin pout
           @ init_events test_config pin pout [0 ..< ?N] rs @ trace_of res3" and
    t9: "take 14 good_events = alloc_events test_config 0 pin pout
           @ init_events test_config pin pout [0 ..< ?N] rs @ pre'" and
    t10: "\<forall>i < ?N. Rand (rs ! i) \<in> set (take 14 good_events) \<and>
           Store pin i (dma_data_of_int test_config (rs ! i)) \<in> set (take 14 good_events) \<and>
           Store pout i (dma_data_of_int test_config 0) \<in> set (take 14 good_events)"
    by (elim exE conjE) (rule that)
  have N: "?N = 2" by (simp add: test_config_sel)
  note x = t1[unfolded sim_allocate[of True], unfolded option.inject res.inject prod.inject]
  from x have a: "pin = 0x7f0000" "pout = 0x7f1000"
    "w1 = sim_start\<lparr>brk := 0x7f2000, live := [0x7f0000, 0x7f1000]\<rparr>"
    by blast+
  from t2 have rs: "rs = [1, 1103527590]"
    unfolding a N by (simp add: sim_init_rands)
  have m: "acts_as_memory ?A" by (rule sim_acts_as_memory)
  with t6 a have ld: "\<forall>i < ?N. load ?A 0x7f1000 i w2 = dma_data_of_int test_config 0 \<and>
                     load ?A 0x7f0000 i w2 = dma_data_of_int test_config (rs ! i)"
    by simp
  from ld have l1: "map (\<lambda>i. load ?A 0x7f0000 i w2) [0, 1] = [1, 1103527590]"
    unfolding N rs by (simp add: test_config_sel)
  have "\<exists>u2. initialize test_config ?A 0x7f0000 0x7f1000
            (sim_start\<lparr>brk := 0x7f2000, live := [0x7f0000, 0x7f1000]\<rparr>)
           = Some (Ok () u2 (init_events test_config 0x7f0000 0x7f1000 [0, 1] [1, 1103527590]))
        \<and> map (\<lambda>i. load ?A 0x7f1000 i u2) [0, 1] = [0, 0]"
    by (simp add: run_defs init_events_def init_step_def)
  then obtain u2 where
    e2: "initialize test_config ?A 0x7f0000 0x7f1000
            (sim_start\<lparr>brk := 0x7f2000, live := [0x7f0000, 0x7f1000]\<rparr>)
           = Some (Ok () u2 (init_events test_config 0x7f0000 0x7f1000 [0, 1] [1, 1103527590]))" and
    e4: "map (\<lambda>i. load ?A 0x7f1000 i u2) [0, 1] = [0, 0]"
    by (elim exE conjE) (rule that)
  note y = t5[unfolded a, unfolded e2, unfolded option.inject res.inject]
  from y have u2: "u2 = w2" by blast
  note l2 = e4[unfolded u2]
  have i1: "map (\<lambda>i. load ?A 0x7f0000 i sim_start) [0, 1] = [0xdeadbeef, 0xdeadbeef]"
    and i2: "map (\<lambda>i. load ?A 0x7f1000 i sim_start) [0, 1] = [0xdeadbeef, 0xdeadbeef]"
    by (simp_all add: sim_afu_def sim_start_def)
  from t8 have t8': "good_events = alloc_events test_config 0 pin pout
           @ init_events test_config pin pout [0 ..< ?N] rs @ trace_of res3"
    by simp
  show ?thesis
    apply (rule exI[of _ w'], rule exI[of _ w1], rule exI[of _ w2], rule exI[of _ res3],
        rule exI[of _ pre'])
    apply (intro conjI r s m i1 i2 t1[unfolded a(1,2)] t2[symmetric, unfolded rs a(1,2)]
        t3[unfolded a(1,2)] t5[unfolded rs a(1,2)] l1 l2 t7[unfolded a(1,2)]
        t8'[unfolded rs a(1,2)] t9[unfolded rs a(1,2)] t10[unfolded rs a(1,2)])
    done
qed

text \<open>Termination: every piece but the polling loop returns.\<close>

lemma report_returns: "report c A errors w \<noteq> None"
  by (auto simp: report_def bind_res_None_iff afu_read_def cout_def split: sum.splits)

lemma release_returns: "release A input output w \<noteq> None"
  by (auto simp: release_def bind_res_None_iff afu_free_def split: sum.splits)

lemma bind_res_NoneE:
  assumes "bind_res m f = None" and "m \<noteq> None"
  obtains r w1 tr1 where "m = Some (Ok r w1 tr1)" "f r w1 = None"
  using assms unfolding bind_res_None_iff by auto

lemma after_poll_returns:
  "bind_res (verify c A pin pout w) (\<lambda>errors w.
     bind_res (report c A errors w) (\<lambda>_ w. release A pin pout w)) \<noteq> None"
  using report_returns[of c A] release_returns[of A pin pout]
  by (auto simp: verify_eq bind_res_None_iff)

lemma test_body_None:
  assumes "test_body c A test w = None"
  shows "\<exists>w3. poll c A w3 [] = None"
proof -
  from assms[unfolded test_body_def] allocate_returns[of c A test w] obtain io w1 tr1 where
    "allocate c A test w = Some (Ok io w1 tr1)" and
    "(case io of (input, output) \<Rightarrow> \<lambda>w.
           bind_res (initialize c A input output w) (\<lambda>_ w.
           bind_res (program c A input output w) (\<lambda>_ w.
           bind_res (poll c A w []) (\<lambda>_ w.
           bind_res (verify c A input output w) (\<lambda>errors w.
           bind_res (report c A errors w) (\<lambda>_ w.
           release A input output w)))))) w1 = None"
    by (rule bind_res_NoneE)
  moreover obtain pin pout where "io = (pin, pout)" by (cases io)
  ultimately have "bind_res (initialize c A pin pout w1) (\<lambda>_ w.
           bind_res (program c A pin pout w) (\<lambda>_ w.
           bind_res (poll c A w []) (\<lambda>_ w.
           bind_res (verify c A pin pout w) (\<lambda>errors w.
           bind_res (report c A errors w) (\<lambda>_ w.
           release A pin pout w))))) = None"
    by simp
  moreover have "initialize c A pin pout w1 \<noteq> None"
    using initialize_eq[of c A pin pout w1] by auto
  ultimately obtain u2 w2 tr2 where
    "initialize c A pin pout w1 = Some (Ok u2 w2 tr2)" and
    "bind_res (program c A pin pout w2) (\<lambda>_ w.
           bind_res (poll c A w []) (\<lambda>_ w.
           bind_res (verify c A pin pout w) (\<lambda>errors w.
           bind_res (report c A errors w) (\<lambda>_ w.
           release A pin pout w)))) = None"
    by (rule bind_res_NoneE)
  from this(2) program_returns[of c A pin pout w2] obtain u3 w3 tr3 where
    "program c A pin pout w2 = Some (Ok u3 w3 tr3)" and
    "bind_res (poll c A w3 []) (\<lambda>_ w.
           bind_res (verify c A pin pout w) (\<lambda>errors w.
           bind_res (report c A errors w) (\<lambda>_ w.
           release A pin pout w))) = None"
    by (rule bind_res_NoneE)
  have "poll c A w3 [] = None"
  proof (rule ccontr)
    assume "poll c A w3 [] \<noteq> None"
    with \<open>bind_res (poll c A w3 []) _ = None\<close> obtain u4 w4 tr4 where
      "poll c A w3 [] = Some (Ok u4 w4 tr4)" and
      "bind_res (verify c A pin pout w4) (\<lambda>errors w.
           bind_res (report c A errors w) (\<lambda>_ w.
           release A pin pout w)) = None"
      by (rule bind_res_NoneE)
    with after_poll_returns[of c A pin pout w4] show False by simp
  qed
  then show ?thesis ..
qed

lemma main_returns:
  assumes "\<forall>w'. \<exists>k. done_within c A k w'"
  shows "\<exists>r. main c A w = Some r"
proof (rule ccontr)
  assume "\<not> (\<exists>r. main c A w = Some r)"
  then have "main c A w = None" by (cases "main c A w") auto
  then have "try_block c A w = None" by (simp add: main_None_iff)
  then obtain w1 where "test_body c A 0 w1 = None"
    unfolding try_block_eq bind_res_None_iff by (auto simp: afu_new_def split: sum.splits)
  then have "\<exists>w3. poll c A w3 [] = None" by (rule test_body_None)
  then obtain w3 where "poll c A w3 [] = None" ..
  moreover from assms obtain k where "done_within c A k w3" by blast
  ultimately show False using done_within_poll[of c A k w3 "[]"] by simp
qed

lemma sim_done_within:
  "busy w = b \<Longrightarrow> done_within test_config (sim_afu test_config copies no_fault) (Suc b) w"
proof (induction b arbitrary: w)
  case 0
  then show ?case by (simp add: sim_afu_def no_fault_def test_config_sel)
next
  case (Suc b)
  from Suc.prems have "busy (w\<lparr>busy := busy w - 1\<rparr>) = b" by simp
  from Suc.IH[OF this] Suc.prems show ?case
    by (simp add: sim_afu_def no_fault_def test_config_sel)
qed

lemma sim_always_done: "\<forall>w. \<exists>k. done_within test_config (sim_afu test_config copies no_fault) k w"
  using sim_done_within by blast

lemma busy_run:
  "try_block test_config (sim_afu test_config True (fault_on (Read 0x58) (Fpga_result FPGA_BUSY))) sim_start
     = Some (Raise (Fpga_result FPGA_BUSY)
        (Afu (New (AFU_ACCEL_UUID test_config)) Void # take 15 good_events
           @ [Afu (Read 0x58) (Thrown (Fpga_result FPGA_BUSY))]))"
  by (simp add: try_block_eq run_defs good_events_def)

lemma sim_poll:
  "\<exists>w'. poll test_config (sim_afu test_config True no_fault) sim_start []
           = Some (Ok () w' [Afu (Read 0x58) (Value 0), Sleep 10, Afu (Read 0x58) (Value 1)])"
  by (simp add: run_defs)

text \<open>
  C4. The loop of lines 90-93: a poll answered with 0 is followed by the sleep, when
  \<open>SLEEP_WHILE_WAITING\<close> is set, and by nothing otherwise, and then by another poll; the
  loop ends only with a value that is not 0 or with an exception; and before the first
  read of a buffer by the comparison there are the register writes, any number of polls
  answered with 0, and one answered with a value that is not 0.
\<close>

theorem poll_until_done:
  "(AFU_read A (MMIO_DONE c) w = Inr (0, w1) \<longrightarrow>
      poll c A w acc =
        poll c A (if SLEEP_WHILE_WAITING c then sleep_for A (SLEEP_MS c) w1 else w1)
          (acc @ wait_events c))
   \<and> wait_events c =
       Afu (Read (MMIO_DONE c)) (Value 0) # (if SLEEP_WHILE_WAITING c then [Sleep (SLEEP_MS c)] else [])
   \<and> (poll c A w [] = Some res \<longrightarrow>
        (\<exists>k. (\<exists>v w'. v \<noteq> 0 \<and>
                 res = Ok () w' (concat (replicate k (wait_events c))
                                   @ [Afu (Read (MMIO_DONE c)) (Value v)]))
            \<or> (\<exists>e. res = Raise e (concat (replicate k (wait_events c))
                                   @ [Afu (Read (MMIO_DONE c)) (Thrown e)]))))
   \<and> (test_body c A test w0 = Some res0 \<and> trace_of res0 = pre @ Load p i x # post \<longrightarrow>
        (\<exists>input output rs n k v ls. v \<noteq> 0 \<and>
           pre = alloc_events c test input output
                 @ init_events c input output [0 ..< unat (DATA_AMOUNT c)] rs
                 @ program_events c input output n
                 @ concat (replicate k (wait_events c)) @ [Afu (Read (MMIO_DONE c)) (Value v)]
                 @ ls
           \<and> (\<forall>y \<in> set ls. is_load y)))"
proof (intro conjI impI)
  assume "AFU_read A (MMIO_DONE c) w = Inr (0, w1)"
  then show "poll c A w acc =
        poll c A (if SLEEP_WHILE_WAITING c then sleep_for A (SLEEP_MS c) w1 else w1)
          (acc @ wait_events c)"
    by (subst poll.simps) (simp add: wait_events_def)
next
  show "wait_events c =
       Afu (Read (MMIO_DONE c)) (Value 0) # (if SLEEP_WHILE_WAITING c then [Sleep (SLEEP_MS c)] else [])"
    by (simp add: wait_events_def)
next
  assume "poll c A w [] = Some res"
  then show "\<exists>k. (\<exists>v w'. v \<noteq> 0 \<and>
                 res = Ok () w' (concat (replicate k (wait_events c))
                                   @ [Afu (Read (MMIO_DONE c)) (Value v)]))
            \<or> (\<exists>e. res = Raise e (concat (replicate k (wait_events c))
                                   @ [Afu (Read (MMIO_DONE c)) (Thrown e)]))"
    by (cases rule: poll_cases) (auto simp: poll_events_def)
next
  assume a: "test_body c A test w0 = Some res0 \<and> trace_of res0 = pre @ Load p i x # post"
  then have "test_body c A test w0 = Some res0" ..
  then show "\<exists>input output rs n k v ls. v \<noteq> 0 \<and>
           pre = alloc_events c test input output
                 @ init_events c input output [0 ..< unat (DATA_AMOUNT c)] rs
                 @ program_events c input output n
                 @ concat (replicate k (wait_events c)) @ [Afu (Read (MMIO_DONE c)) (Value v)]
                 @ ls
           \<and> (\<forall>y \<in> set ls. is_load y)"
  proof (cases rule: test_body_loads)
    case none
    with a show ?thesis by auto
  next
    case (verified pin pout rs n k v w2 rest)
    let ?N = "unat (DATA_AMOUNT c)"
    let ?xs = "alloc_events c test pin pout @ init_events c pin pout [0 ..< ?N] rs
               @ program_events c pin pout n @ poll_events c k v"
    have xs: "\<forall>y \<in> set ?xs. \<not> is_load y"
      by (auto simp: program_events_def poll_events_def
          dest!: alloc_events_kind init_events_kind wait_events_kind)
    from verified(4) a
    have "?xs @ compare_events A pin pout [0 ..< ?N] w2 @ rest = pre @ Load p i x # post"
      by simp
    moreover have "is_load (Load p i x)" by simp
    ultimately obtain ls where
      ls: "pre = ?xs @ ls" "\<forall>y \<in> set ls. y \<in> set (compare_events A pin pout [0 ..< ?N] w2)"
      using xs verified(5) by (rule split_in_middle[where P = is_load])
    from ls(2) have "\<forall>y \<in> set ls. is_load y" by (auto dest: compare_events_kind)
    with ls(1) verified(3) show ?thesis
      by (intro exI[of _ pin] exI[of _ pout] exI[of _ rs] exI[of _ n] exI[of _ k] exI[of _ v]
            exI[of _ ls]) (simp add: poll_events_def)
  qed
qed

theorem poll_until_done_witness:
  "\<exists>w1 res w'.
     AFU_read (sim_afu test_config True no_fault) (MMIO_DONE test_config) sim_start = Inr (0, w1)
   \<and> poll test_config (sim_afu test_config True no_fault) sim_start [] = Some res
   \<and> test_body test_config (sim_afu test_config True no_fault) 0 sim_start
        = Some (Ok () w' good_events)
   \<and> trace_of (Ok () w' good_events) = take 18 good_events @ Load 0x7f1000 0 1 # drop 19 good_events
   \<and> poll test_config (sim_afu test_config True no_fault) sim_start [] =
        poll test_config (sim_afu test_config True no_fault)
          (if SLEEP_WHILE_WAITING test_config
           then sleep_for (sim_afu test_config True no_fault) (SLEEP_MS test_config) w1 else w1)
          ([] @ wait_events test_config)
   \<and> (\<exists>k. (\<exists>v w'. v \<noteq> 0 \<and>
                 res = Ok () w' (concat (replicate k (wait_events test_config))
                                   @ [Afu (Read (MMIO_DONE test_config)) (Value v)]))
            \<or> (\<exists>e. res = Raise e (concat (replicate k (wait_events test_config))
                                   @ [Afu (Read (MMIO_DONE test_config)) (Thrown e)])))
   \<and> (\<exists>input output rs n k v ls. v \<noteq> 0 \<and>
           take 18 good_events = alloc_events test_config 0 input output
                 @ init_events test_config input output [0 ..< unat (DATA_AMOUNT test_config)] rs
                 @ program_events test_config input output n
                 @ concat (replicate k (wait_events test_config))
                 @ [Afu (Read (MMIO_DONE test_config)) (Value v)]
                 @ ls
           \<and> (\<forall>y \<in> set ls. is_load y))"
proof -
  let ?A = "sim_afu test_config True no_fault"
  have 1: "AFU_read ?A (MMIO_DONE test_config) sim_start = Inr (0, sim_start\<lparr>busy := 0\<rparr>)"
    by (simp add: sim_afu_def no_fault_def sim_start_def test_config_sel)
  from sim_poll obtain res where 2: "poll test_config ?A sim_start [] = Some res" by blast
  from good_iteration obtain w' where
    3: "test_body test_config ?A 0 sim_start = Some (Ok () w' good_events)" ..
  have 4: "trace_of (Ok () w' good_events) = take 18 good_events @ Load 0x7f1000 0 1 # drop 19 good_events"
    by (simp add: good_events_def)
  from poll_until_done[where A = ?A and c = test_config and w = sim_start
      and ?w1.0 = "sim_start\<lparr>busy := 0\<rparr>" and acc = "[]" and res = res and test = 0
      and ?w0.0 = sim_start and ?res0.0 = "Ok () w' good_events" and pre = "take 18 good_events"
      and p = "0x7f1000" and i = 0 and x = 1 and post = "drop 19 good_events"]
    1 2 3 4
  show ?thesis by blast
qed

lemma main_good: "main test_config (sim_afu test_config True no_fault) sim_start =
     Some (Exit EXIT_SUCCESS, Afu (New (AFU_ACCEL_UUID test_config)) Void # good_events)"
  by (simp add: main_def try_block_eq run_defs good_events_def)

lemma mmio_offsets_filter: "mmio_offsets (filter is_mmio tr) = mmio_offsets tr"
proof (induction tr)
  case Nil
  show ?case by simp
next
  case (Cons x tr)
  have "\<not> is_mmio x \<Longrightarrow> mmio_of x = []"
    by (cases x rule: is_mmio.cases) simp_all
  with Cons show ?case by simp
qed

lemma try_block_mmio:
  assumes "try_block c A w = Some res"
  shows "mmio_offsets (trace_of res)
           \<subseteq> {MMIO_RD_ADDR c, MMIO_WR_ADDR c, MMIO_SIZE c, MMIO_GO c, MMIO_DONE c, 0x0060}"
  using assms
proof (cases rule: try_block_cases)
  case (no_afu e)
  then show ?thesis by simp
next
  case (tested w1 res1)
  let ?S = "{MMIO_RD_ADDR c, MMIO_WR_ADDR c, MMIO_SIZE c, MMIO_GO c, MMIO_DONE c, 0x0060}"
  have "every (\<lambda>x. set (mmio_of x) \<subseteq> ?S) (test_body c A 0 w1)"
    by (rule every_mono[OF test_body_kinds]) (auto elim: is_load.elims)
  with tested(1) have "\<forall>x \<in> set (trace_of res1). set (mmio_of x) \<subseteq> ?S"
    by (simp add: every_def)
  then have "mmio_offsets (trace_of res1) \<subseteq> ?S"
    by (simp only: mmio_offsets_subset)
  with tested(2) show ?thesis by simp
qed

lemma try_block_Ok:
  assumes "try_block c A w = Some (Ok u w' tr)"
  obtains w1 tr1 where "test_body c A 0 w1 = Some (Ok u w' tr1)"
    "tr = Afu (New (AFU_ACCEL_UUID c)) Void # tr1"
  using assms
proof (cases rule: try_block_cases)
  case (no_afu e)
  then show ?thesis by simp
next
  case (tested w1 res1)
  from tested(2)[symmetric] obtain tr1 where "res1 = Ok u w' tr1"
    "tr = [Afu (New (AFU_ACCEL_UUID c)) Void] @ tr1"
    unfolding prepend_Ok_iff by blast
  with tested(1) that show ?thesis by simp
qed

lemma try_block_Raise:
  assumes "try_block c A w = Some (Raise e tr0)"
  shows "\<exists>cl tr1. tr0 = tr1 @ [Afu cl (Thrown e)] \<and> (\<forall>x \<in> set tr1. \<not> is_thrown x)"
  using orderly_runD[OF try_block_orderly assms] by simp blast

text \<open>
  C5. The register offsets that the program reads or writes are the five named ones only.
  As amended: they are among the five named ones and the offset \<open>0x0060\<close>, which line 105
  reads; a run that returns \<open>EXIT_SUCCESS\<close> touches exactly these six, and its register
  accesses are, in order: the writes of the input pointer to \<open>MMIO_RD_ADDR\<close>, of the output
  pointer to \<open>MMIO_WR_ADDR\<close>, of the size to \<open>MMIO_SIZE\<close> and of 1 to \<open>MMIO_GO\<close>, then the
  reads of \<open>MMIO_DONE\<close>, then one read of \<open>0x0060\<close>.
\<close>

theorem mmio_offsets_accessed:
  assumes "main c A w = Some (oc, tr)"
  shows "mmio_offsets tr
           \<subseteq> {MMIO_RD_ADDR c, MMIO_WR_ADDR c, MMIO_SIZE c, MMIO_GO c, MMIO_DONE c, 0x0060}
       \<and> (oc = Exit EXIT_SUCCESS \<longrightarrow>
            mmio_offsets tr
              = {MMIO_RD_ADDR c, MMIO_WR_ADDR c, MMIO_SIZE c, MMIO_GO c, MMIO_DONE c, 0x0060}
          \<and> (\<exists>input output n k v resets.
                tr ! 1 = Afu (Malloc (unat (DATA_AMOUNT c))) (Value input)
              \<and> tr ! 2 = Afu (Malloc (unat (DATA_AMOUNT c))) (Value output)
              \<and> num_cls c = Some n \<and> v \<noteq> 0
              \<and> filter is_mmio tr =
                  [Afu (Write (MMIO_RD_ADDR c) input) Void,
                   Afu (Write (MMIO_WR_ADDR c) output) Void,
                   Afu (Write (MMIO_SIZE c) (ucast n)) Void,
                   Afu (Write (MMIO_GO c) 1) Void]
                  @ replicate k (Afu (Read (MMIO_DONE c)) (Value 0))
                  @ [Afu (Read (MMIO_DONE c)) (Value v), Afu (Read 0x0060) (Value resets)]))"
proof (intro conjI impI)
  let ?S = "{MMIO_RD_ADDR c, MMIO_WR_ADDR c, MMIO_SIZE c, MMIO_GO c, MMIO_DONE c, 0x0060}"
  from assms show "mmio_offsets tr \<subseteq> ?S"
  proof (cases rule: main_cases)
    case (success u w')
    from try_block_mmio[OF success(1)] show ?thesis by simp
  next
    case (failure e tr0)
    from try_block_mmio[OF failure(1)] failure(3) show ?thesis by simp
  next
    case undefined
    from try_block_mmio[OF undefined(1)] show ?thesis by simp
  qed
  assume "oc = Exit EXIT_SUCCESS"
  with assms obtain u w' where "try_block c A w = Some (Ok u w' tr)"
    by (cases rule: main_cases) (simp_all add: EXIT_SUCCESS_def EXIT_FAILURE_def)
  then obtain w1 tr1 where t: "test_body c A 0 w1 = Some (Ok u w' tr1)"
    and tr: "tr = Afu (New (AFU_ACCEL_UUID c)) Void # tr1"
    by (rule try_block_Ok)
  from t obtain pin pout rs n k v w2 resets where n: "num_cls c = Some n" and v: "v \<noteq> 0"
    and tr1: "tr1 = alloc_events c 0 pin pout
        @ init_events c pin pout [0 ..< unat (DATA_AMOUNT c)] rs
        @ program_events c pin pout n
        @ poll_events c k v
        @ compare_events A pin pout [0 ..< unat (DATA_AMOUNT c)] w2
        @ report_events resets (of_nat (mismatches A pin pout (unat (DATA_AMOUNT c)) w2))
        @ release_events pin pout"
    by (rule test_body_Ok)
  have f: "filter is_mmio tr =
             [Afu (Write (MMIO_RD_ADDR c) pin) Void,
              Afu (Write (MMIO_WR_ADDR c) pout) Void,
              Afu (Write (MMIO_SIZE c) (ucast n)) Void,
              Afu (Write (MMIO_GO c) 1) Void]
             @ replicate k (Afu (Read (MMIO_DONE c)) (Value 0))
             @ [Afu (Read (MMIO_DONE c)) (Value v), Afu (Read 0x0060) (Value resets)]"
    unfolding tr tr1 by (simp add: filter_mmio_events) (simp add: program_events_def)
  have m: "tr ! 1 = Afu (Malloc (unat (DATA_AMOUNT c))) (Value pin)"
    "tr ! 2 = Afu (Malloc (unat (DATA_AMOUNT c))) (Value pout)"
    unfolding tr tr1 by (simp_all add: alloc_events_def)
  have "mmio_offsets tr = mmio_offsets (filter is_mmio tr)"
    by (simp add: mmio_offsets_filter)
  also have "\<dots> = ?S"
    unfolding f by (auto simp: mmio_offsets_def)
  finally show "mmio_offsets tr = ?S" .
  from f m n v show "\<exists>input output n k v resets.
                tr ! 1 = Afu (Malloc (unat (DATA_AMOUNT c))) (Value input)
              \<and> tr ! 2 = Afu (Malloc (unat (DATA_AMOUNT c))) (Value output)
              \<and> num_cls c = Some n \<and> v \<noteq> 0
              \<and> filter is_mmio tr =
                  [Afu (Write (MMIO_RD_ADDR c) input) Void,
                   Afu (Write (MMIO_WR_ADDR c) output) Void,
                   Afu (Write (MMIO_SIZE c) (ucast n)) Void,
                   Afu (Write (MMIO_GO c) 1) Void]
                  @ replicate k (Afu (Read (MMIO_DONE c)) (Value 0))
                  @ [Afu (Read (MMIO_DONE c)) (Value v), Afu (Read 0x0060) (Value resets)]"
    by blast
qed

theorem mmio_offsets_accessed_witness:
  "main test_config (sim_afu test_config True no_fault) sim_start
     = Some (Exit EXIT_SUCCESS, Afu (New (AFU_ACCEL_UUID test_config)) Void # good_events)
   \<and> mmio_offsets (Afu (New (AFU_ACCEL_UUID test_config)) Void # good_events)
       = {MMIO_RD_ADDR test_config, MMIO_WR_ADDR test_config, MMIO_SIZE test_config,
          MMIO_GO test_config, MMIO_DONE test_config, 0x0060}
   \<and> (\<exists>input output n k v resets.
          (Afu (New (AFU_ACCEL_UUID test_config)) Void # good_events) ! 1
            = Afu (Malloc (unat (DATA_AMOUNT test_config))) (Value input)
        \<and> (Afu (New (AFU_ACCEL_UUID test_config)) Void # good_events) ! 2
            = Afu (Malloc (unat (DATA_AMOUNT test_config))) (Value output)
        \<and> num_cls test_config = Some n \<and> v \<noteq> 0
        \<and> filter is_mmio (Afu (New (AFU_ACCEL_UUID test_config)) Void # good_events) =
            [Afu (Write (MMIO_RD_ADDR test_config) input) Void,
             Afu (Write (MMIO_WR_ADDR test_config) output) Void,
             Afu (Write (MMIO_SIZE test_config) (ucast n)) Void,
             Afu (Write (MMIO_GO test_config) 1) Void]
            @ replicate k (Afu (Read (MMIO_DONE test_config)) (Value 0))
            @ [Afu (Read (MMIO_DONE test_config)) (Value v), Afu (Read 0x0060) (Value resets)])"
  using mmio_offsets_accessed[OF main_good] main_good by blast

theorem mmio_offsets_counterexample:
  "main test_config (sim_afu test_config True no_fault) sim_start
     = Some (Exit EXIT_SUCCESS, Afu (New (AFU_ACCEL_UUID test_config)) Void # good_events)
   \<and> mmio_offsets (Afu (New (AFU_ACCEL_UUID test_config)) Void # good_events)
       \<noteq> {MMIO_RD_ADDR test_config, MMIO_WR_ADDR test_config, MMIO_SIZE test_config,
           MMIO_GO test_config, MMIO_DONE test_config}"
proof -
  have "0x0060 \<in> mmio_offsets (Afu (New (AFU_ACCEL_UUID test_config)) Void # good_events)"
    by (simp add: good_events_def)
  moreover have "(0x0060 :: u64) \<notin> {MMIO_RD_ADDR test_config, MMIO_WR_ADDR test_config,
      MMIO_SIZE test_config, MMIO_GO test_config, MMIO_DONE test_config}"
    by (simp add: test_config_sel)
  ultimately show ?thesis using main_good by metis
qed

text \<open>
  C6. An exception that leaves the \<open>try\<close> block was thrown by the last call of the wrapper
  that the run made; \<open>main\<close> then writes one line to \<open>cerr\<close>, chosen by the handlers of
  lines 123-143, and returns \<open>EXIT_FAILURE\<close>.
\<close>

theorem exceptions_caught_and_reported:
  assumes "try_block c A w = Some (Raise e tr0)"
  shows "main c A w = Some (Exit EXIT_FAILURE, tr0 @ [Cerr (handler c e)])
       \<and> (\<exists>cl tr1. tr0 = tr1 @ [Afu cl (Thrown e)] \<and> (\<forall>x \<in> set tr1. \<not> is_thrown x))
       \<and> handler c (Fpga_result FPGA_BUSY) = ''ERROR: All FPGAs busy.'' @ endl
       \<and> handler c (Fpga_result FPGA_NOT_FOUND)
           = ''ERROR: FPGA with accelerator '' @ AFU_ACCEL_UUID c @ '' not found.'' @ endl
       \<and> (r \<noteq> FPGA_BUSY \<and> r \<noteq> FPGA_NOT_FOUND \<longrightarrow>
            handler c (Fpga_result r) = ''ERROR: '' @ fpgaErrStr c r @ endl)
       \<and> handler c (Runtime_error what) = what @ endl
       \<and> handler c No_driver = ''ERROR: No FPGA driver found.'' @ endl"
proof -
  from assms have "main c A w = Some (Exit EXIT_FAILURE, tr0 @ [Cerr (handler c e)])"
    by (simp add: main_def)
  moreover from assms
  have "\<exists>cl tr1. tr0 = tr1 @ [Afu cl (Thrown e)] \<and> (\<forall>x \<in> set tr1. \<not> is_thrown x)"
    by (rule try_block_Raise)
  ultimately show ?thesis by simp
qed

theorem exceptions_caught_and_reported_witness:
  "try_block test_config (sim_afu test_config True (fault_on (Read 0x58) (Fpga_result FPGA_BUSY))) sim_start
     = Some (Raise (Fpga_result FPGA_BUSY)
        (Afu (New (AFU_ACCEL_UUID test_config)) Void # take 15 good_events
           @ [Afu (Read 0x58) (Thrown (Fpga_result FPGA_BUSY))]))
   \<and> main test_config (sim_afu test_config True (fault_on (Read 0x58) (Fpga_result FPGA_BUSY))) sim_start
     = Some (Exit EXIT_FAILURE,
         (Afu (New (AFU_ACCEL_UUID test_config)) Void # take 15 good_events
           @ [Afu (Read 0x58) (Thrown (Fpga_result FPGA_BUSY))])
         @ [Cerr (''ERROR: All FPGAs busy.'' @ endl)])
   \<and> FPGA_NO_MEMORY \<noteq> FPGA_BUSY \<and> FPGA_NO_MEMORY \<noteq> FPGA_NOT_FOUND
   \<and> handler test_config (Fpga_result FPGA_NO_MEMORY)
       = ''ERROR: '' @ fpgaErrStr test_config FPGA_NO_MEMORY @ endl"
  using exceptions_caught_and_reported[OF busy_run, where r = FPGA_NO_MEMORY] busy_run
  by simp

text \<open>
  C9. A run in which no call of the wrapper throws, and whose behaviour is defined, returns
  \<open>EXIT_SUCCESS\<close> and prints the success line once for each of the \<open>NUM_TESTS\<close>
  iterations, whatever the comparison found. The run returns whenever the accelerator
  answers the polls, from any state of the world, after finitely many of them.
\<close>

theorem no_exception_exit_success:
  "(main c A w = Some (oc, tr) \<and> (\<forall>x \<in> set tr. \<not> is_thrown x) \<and> oc \<noteq> Undefined \<longrightarrow>
      oc = Exit EXIT_SUCCESS \<and>
      count_list tr (Cout (''DMA Test Successful!!!'' @ endl)) = NUM_TESTS)
   \<and> ((\<forall>w'. \<exists>k. done_within c A k w') \<longrightarrow> (\<exists>r. main c A w = Some r))"
proof (intro conjI impI)
  assume a: "main c A w = Some (oc, tr) \<and> (\<forall>x \<in> set tr. \<not> is_thrown x) \<and> oc \<noteq> Undefined"
  then have "main c A w = Some (oc, tr)" ..
  then have ok: "\<exists>u w'. try_block c A w = Some (Ok u w' tr) \<and> oc = Exit EXIT_SUCCESS"
  proof (cases rule: main_cases)
    case (success u w')
    then show ?thesis by blast
  next
    case (failure e tr0)
    from try_block_Raise[OF failure(1)] obtain cl tr1 where "tr0 = tr1 @ [Afu cl (Thrown e)]"
      by blast
    then have "Afu cl (Thrown e) \<in> set tr0" by simp
    with failure(3) a show ?thesis by fastforce
  next
    case undefined
    with a show ?thesis by simp
  qed
  then show "oc = Exit EXIT_SUCCESS" by blast
  from ok obtain u w' where "try_block c A w = Some (Ok u w' tr)" by blast
  then obtain w1 tr1 where t: "test_body c A 0 w1 = Some (Ok u w' tr1)"
    and tr: "tr = Afu (New (AFU_ACCEL_UUID c)) Void # tr1"
    by (rule try_block_Ok)
  from t obtain pin pout rs n k v w2 resets where
    tr1: "tr1 = alloc_events c 0 pin pout
        @ init_events c pin pout [0 ..< unat (DATA_AMOUNT c)] rs
        @ program_events c pin pout n
        @ poll_events c k v
        @ compare_events A pin pout [0 ..< unat (DATA_AMOUNT c)] w2
        @ report_events resets (of_nat (mismatches A pin pout (unat (DATA_AMOUNT c)) w2))
        @ release_events pin pout"
    by (rule test_body_Ok)
  have "count_list tr1 (Cout success_line) = 1"
    unfolding tr1 by (rule success_once)
  then show "count_list tr (Cout (''DMA Test Successful!!!'' @ endl)) = NUM_TESTS"
    unfolding tr by (simp add: success_line_def NUM_TESTS_def)
next
  assume "\<forall>w'. \<exists>k. done_within c A k w'"
  then show "\<exists>r. main c A w = Some r" by (rule main_returns)
qed

theorem no_exception_exit_success_witness:
  "main test_config (sim_afu test_config False no_fault) sim_start
     = Some (Exit EXIT_SUCCESS, Afu (New (AFU_ACCEL_UUID test_config)) Void # mismatch_events)
   \<and> filter is_thrown (Afu (New (AFU_ACCEL_UUID test_config)) Void # mismatch_events) = []
   \<and> Exit EXIT_SUCCESS \<noteq> Undefined
   \<and> (\<forall>w'. \<exists>k. done_within test_config (sim_afu test_config False no_fault) k w')
   \<and> Cout (''FAILURE: DMA Test Failed With 2 errors!!!!'' @ endl) \<in> set mismatch_events
   \<and> count_list (Afu (New (AFU_ACCEL_UUID test_config)) Void # mismatch_events)
        (Cout (''DMA Test Successful!!!'' @ endl)) = NUM_TESTS
   \<and> (\<exists>r. main test_config (sim_afu test_config False no_fault) sim_start = Some r)"
proof -
  let ?tr = "Afu (New (AFU_ACCEL_UUID test_config)) Void # mismatch_events"
  have 1: "\<forall>x \<in> set ?tr. \<not> is_thrown x"
    by (simp add: mismatch_events_def)
  have 2: "Cout (''FAILURE: DMA Test Failed With 2 errors!!!!'' @ endl) \<in> set mismatch_events"
    by (simp add: mismatch_events_def)
  from 1 have 3: "filter is_thrown ?tr = []"
    by (simp only: filter_empty_conv)
  from no_exception_exit_success[where c = test_config and A = "sim_afu test_config False no_fault"
      and w = sim_start and oc = "Exit EXIT_SUCCESS" and tr = ?tr]
    main_mismatch 1 2 3 sim_always_done[of False]
  show ?thesis by simp
qed

lemma ceiling_quotient_le:
  fixes a b :: nat
  assumes "b \<noteq> 0"
  shows "\<lceil>(of_nat a :: rat) / of_nat b\<rceil> \<le> int a" "0 \<le> \<lceil>(of_nat a :: rat) / of_nat b\<rceil>"
proof -
  have b: "(1 :: rat) \<le> of_nat b" using assms by (simp add: Suc_le_eq)
  have "(of_nat a :: rat) / of_nat b \<le> of_nat a / 1"
    by (rule divide_left_mono) (use b in simp_all)
  then have "(of_nat a :: rat) / of_nat b \<le> of_int (int a)" by simp
  then show "\<lceil>(of_nat a :: rat) / of_nat b\<rceil> \<le> int a"
    by (simp only: ceiling_le_iff)
  have "(0 :: rat) \<le> of_nat a / of_nat b" by simp
  then have "- 1 < (of_nat a :: rat) / of_nat b" by linarith
  then show "0 \<le> \<lceil>(of_nat a :: rat) / of_nat b\<rceil>" by (simp only: zero_le_ceiling)
qed

lemma num_cls_no_rounding:
  assumes fits: "unat (DATA_AMOUNT c) * sizeof_dma_data_t c < 2 ^ 32"
    and cl: "CL_BYTES c \<noteq> 0" and exact: "no_rounding c"
  obtains n where "num_cls c = Some n" "uint n = exact_cls c"
proof -
  let ?a = "unat (DATA_AMOUNT c) * sizeof_dma_data_t c"
  let ?b = "unat (CL_BYTES c)"
  define qa :: rat where "qa = of_nat ?a"
  define qb :: rat where "qb = of_nat ?b"
  have tb: "unat (total_bytes c) = ?a"
    unfolding total_bytes_def unat_of_nat using fits by simp
  have b: "?b \<noteq> 0" using cl by (simp add: unat_eq_0)
  then have qb: "qb \<noteq> 0" unfolding qb_def by (simp only: of_nat_eq_0_iff not_False_eq_True)
  from exact have r: "float_of_unsigned (total_bytes c) = qa"
    "float_of_unsigned (CL_BYTES c) = qb" "f32_round (qa / qb) = qa / qb"
    unfolding no_rounding_def tb qa_def qb_def by blast+
  have n: "\<lceil>qa / qb\<rceil> \<le> int ?a" "0 \<le> \<lceil>qa / qb\<rceil>"
    unfolding qa_def qb_def using ceiling_quotient_le[OF b, of ?a] by blast+
  from fits have "int ?a < int (2 ^ 32)" by (simp only: of_nat_less_iff)
  then have "int ?a < 2 ^ 32" by simp
  with n(1) have lt: "\<lceil>qa / qb\<rceil> < 2 ^ 32" by (rule le_less_trans)
  have "num_cls c = Some (word_of_int \<lceil>qa / qb\<rceil>)"
    using qb lt by (simp add: num_cls_def r Let_def)
  moreover have "uint (word_of_int \<lceil>qa / qb\<rceil> :: unsigned) = \<lceil>qa / qb\<rceil>"
    using n(2) lt by (simp add: uint_word_of_int take_bit_int_eq_self)
  moreover have "exact_cls c = \<lceil>qa / qb\<rceil>"
    by (simp only: exact_cls_def qa_def qb_def)
  ultimately show ?thesis
    by (intro that[of "word_of_int \<lceil>qa / qb\<rceil>"]) simp_all
qed

lemma size_exact_for_small_buffers:
  assumes "unat (DATA_AMOUNT c) * sizeof_dma_data_t c < 2 ^ 24" and "CL_BYTES c = 64"
  shows "\<exists>n. num_cls c = Some n \<and> uint n = exact_cls c"
proof -
  from assms(1) have "unat (DATA_AMOUNT c) * sizeof_dma_data_t c < 2 ^ 32" by simp
  moreover from assms(2) have "CL_BYTES c \<noteq> 0" by simp
  moreover from assms have "no_rounding c" by (rule no_rounding_small)
  ultimately obtain n where "num_cls c = Some n" "uint n = exact_cls c"
    by (rule num_cls_no_rounding)
  then show ?thesis by blast
qed

lemma total_bytes_big_config: "total_bytes big_config = 0"
  by (simp add: total_bytes_def big_config_def test_config_def)

lemma sim_program:
  "\<exists>w'. program test_config (sim_afu test_config True no_fault) 0x7f0000 0x7f1000 sim_start
     = Some (Ok () w'
         [Afu (Write 0x52 0x7f0000) Void, Afu (Write 0x54 0x7f1000) Void,
          Afu (Write 0x56 1) Void, Afu (Write 0x50 1) Void])"
  by (simp add: run_defs)

text \<open>Single precision does round: \<open>2^24 + 1\<close> bytes in lines of one byte give \<open>2^24\<close> lines.\<close>

lemma f32_round_example: "f32_round 16777217 = 16777216" "f32_round 16777216 = 16777216"
  "f32_round 1 = 1"
  by code_simp+

lemma rounding_changes_size:
  "num_cls rounding_config = Some 16777216" "exact_cls rounding_config = 16777217"
  "\<not> no_rounding rounding_config"
proof -
  have sel: "CL_BYTES rounding_config = 1" "DATA_AMOUNT rounding_config = 16777217"
    "sizeof_dma_data_t rounding_config = 1"
    by (simp_all add: rounding_config_def test_config_def)
  have tb: "total_bytes rounding_config = 16777217"
    by (simp add: total_bytes_def sel)
  show "num_cls rounding_config = Some 16777216"
    by (simp add: num_cls_def tb sel float_of_unsigned_def f32_round_example)
  show "exact_cls rounding_config = 16777217"
    by (simp add: exact_cls_def sel)
  show "\<not> no_rounding rounding_config"
    by (simp add: no_rounding_def tb sel float_of_unsigned_def f32_round_example)
qed

text \<open>
  C8. The value written to \<open>MMIO_SIZE\<close> is the exact ceiling of
  \<open>DATA_AMOUNT * sizeof(dma_data_t) / CL_BYTES\<close> whenever the single precision computation
  rounds nothing. As amended: it is, when moreover the product fits the 32 bits of
  \<open>total_bytes\<close> and \<open>CL_BYTES\<close> is not 0; the write of the size is the third event of
  the register phase.
\<close>

theorem num_cls_exact:
  assumes "unat (DATA_AMOUNT c) * sizeof_dma_data_t c < 2 ^ 32"
    and "CL_BYTES c \<noteq> 0" and "no_rounding c"
  shows "\<exists>n. num_cls c = Some n \<and> uint n = exact_cls c
       \<and> (program c A pin pout w = Some (Ok u w' tr) \<longrightarrow>
            tr ! 2 = Afu (Write (MMIO_SIZE c) (word_of_int (exact_cls c))) Void)"
proof -
  from assms obtain n where n: "num_cls c = Some n" "uint n = exact_cls c"
    by (rule num_cls_no_rounding)
  have "tr ! 2 = Afu (Write (MMIO_SIZE c) (word_of_int (exact_cls c))) Void"
    if "program c A pin pout w = Some (Ok u w' tr)"
  proof -
    from that obtain m where "num_cls c = Some m" "tr = program_events c pin pout m"
      by (rule program_Ok)
    with n(1) have "tr = program_events c pin pout n" by simp
    moreover have "(ucast n :: u64) = word_of_int (uint n)" by simp
    ultimately show ?thesis using n(2) by (simp add: program_events_def)
  qed
  with n show ?thesis by blast
qed

theorem num_cls_exact_witness:
  "unat (DATA_AMOUNT test_config) * sizeof_dma_data_t test_config < 2 ^ 32
   \<and> CL_BYTES test_config \<noteq> 0 \<and> no_rounding test_config
   \<and> (\<exists>w'. program test_config (sim_afu test_config True no_fault) 0x7f0000 0x7f1000 sim_start
        = Some (Ok () w'
            [Afu (Write 0x52 0x7f0000) Void, Afu (Write 0x54 0x7f1000) Void,
             Afu (Write 0x56 1) Void, Afu (Write 0x50 1) Void]))
   \<and> (\<exists>n. num_cls test_config = Some n \<and> uint n = exact_cls test_config)
   \<and> [Afu (Write 0x52 0x7f0000) Void, Afu (Write 0x54 0x7f1000) Void,
       Afu (Write 0x56 1) Void, Afu (Write 0x50 (1 :: u64)) Void :: u64 event] ! 2
       = Afu (Write (MMIO_SIZE test_config) (word_of_int (exact_cls test_config))) Void"
proof -
  have 1: "unat (DATA_AMOUNT test_config) * sizeof_dma_data_t test_config < 2 ^ 32"
    by (simp add: test_config_sel)
  have 2: "CL_BYTES test_config \<noteq> 0" by (simp add: test_config_sel)
  from sim_program obtain w' where
    3: "program test_config (sim_afu test_config True no_fault) 0x7f0000 0x7f1000 sim_start
        = Some (Ok () w'
            [Afu (Write 0x52 0x7f0000) Void, Afu (Write 0x54 0x7f1000) Void,
             Afu (Write 0x56 1) Void, Afu (Write 0x50 1) Void])" ..
  from num_cls_exact[OF 1 2 no_rounding_test_config, where A = "sim_afu test_config True no_fault"
      and pin = "0x7f0000" and pout = "0x7f1000" and w = sim_start and u = "()" and w' = w'
      and tr = "[Afu (Write 0x52 0x7f0000) Void, Afu (Write 0x54 0x7f1000) Void,
             Afu (Write 0x56 1) Void, Afu (Write 0x50 1) Void]"]
    1 2 3 no_rounding_test_config
  show ?thesis by blast
qed

theorem num_cls_counterexample:
  "no_rounding big_config \<and> CL_BYTES big_config \<noteq> 0
   \<and> num_cls big_config = Some 0 \<and> exact_cls big_config = 67108864"
proof -
  have cl: "CL_BYTES big_config = 64" "DATA_AMOUNT big_config = 536870912"
    "sizeof_dma_data_t big_config = 8"
    by (simp_all add: big_config_def test_config_def)
  have f0: "f32_round 0 = 0" by (simp add: f32_round_def)
  have "no_rounding big_config"
    by (simp add: no_rounding_def total_bytes_big_config cl float_of_unsigned_def f0 f32_round_64)
  moreover have "num_cls big_config = Some 0"
    by (simp add: num_cls_def total_bytes_big_config cl float_of_unsigned_def f0 f32_round_64)
  moreover have "exact_cls big_config = 67108864"
    by (simp add: exact_cls_def cl)
  ultimately show ?thesis by (simp add: cl)
qed

end
